theory Spec2Isabelle
  imports Main
begin

section \<open>JavaScript values, objects and the store\<close>

text \<open>
  The source is one function, \<^verbatim>\<open>createEnum\<close> of \<^verbatim>\<open>src/createEnum.js\<close>:
  \<^verbatim>\<open>
  export const createEnum = (obj, options = {}) =>
    Object.entries(obj).reduce(
      (acc, [key, value], index) => ({
        ...acc,
        [key]: { ...options.defaultFields, name: key, index, ...value },
      }),
      {}
    );
  \<close>
  It allocates objects and copies references, so the model keeps an explicit store. An
  address is a position of the store, and allocation appends to the store. A value is a
  primitive or the address of an object. The only numbers the function computes are array
  positions, so numbers are integers here. A \<open>char\<close> stands for one code unit of a
  JavaScript string.
\<close>

type_synonym addr = nat

datatype jsval = JUndefined | JNull | JBool bool | JNum int | JStr string | JRef addr

text \<open>
  An object is the list of its own enumerable string-keyed data properties, in the order
  in which they were created. Accessor properties, symbol keys and non-enumerable
  properties are outside the model.
\<close>

type_synonym props = "(string \<times> jsval) list"

type_synonym store = "props list"

datatype error = TypeError

text \<open>
  The object at an address. An address outside the store holds no object; it reads as an
  object without properties. Well-formed stores, defined below, have no such reference.
\<close>

definition object_at :: "store \<Rightarrow> addr \<Rightarrow> props" where
  "object_at h a = (if a < length h then h ! a else [])"

subsection \<open>The order of own property keys\<close>

text \<open>
  \<^verbatim>\<open>Object.entries\<close> and object spread both visit the own keys of an ordinary object in
  the order of OrdinaryOwnPropertyKeys: first the keys that are array indices (canonical
  decimal strings of an integer below \<open>2^32 - 1\<close>) in ascending numeric order, then every
  other string key in creation order.
\<close>

definition digit_value :: "char \<Rightarrow> nat" where
  "digit_value c = length (takeWhile (\<lambda>d. d \<noteq> c) ''0123456789'')"

definition decimal_value :: "string \<Rightarrow> int" where
  "decimal_value s = foldl (\<lambda>n c. 10 * n + int (digit_value c)) 0 s"

definition is_array_index :: "string \<Rightarrow> bool" where
  "is_array_index s =
     (case s of
        [] \<Rightarrow> False
      | c # cs \<Rightarrow> list_all (\<lambda>d. d \<in> set ''0123456789'') s
                  \<and> (c \<noteq> CHR ''0'' \<or> cs = [])
                  \<and> decimal_value s < 4294967295)"

definition own_property_order :: "props \<Rightarrow> props" where
  "own_property_order ps =
     sort_key (\<lambda>p. decimal_value (fst p)) (filter (\<lambda>p. is_array_index (fst p)) ps)
     @ filter (\<lambda>p. \<not> is_array_index (fst p)) ps"

text \<open>A primitive string has one own enumerable property per code unit, keyed by position.\<close>

fun decimal :: "nat \<Rightarrow> string" where
  "decimal n =
     (if n < 10 then [''0123456789'' ! n]
      else decimal (n div 10) @ [''0123456789'' ! (n mod 10)])"

declare decimal.simps [simp del]

definition string_props :: "string \<Rightarrow> props" where
  "string_props s = map (\<lambda>i. (decimal i, JStr [s ! i])) [0..<length s]"

text \<open>
  The own enumerable properties that a spread \<^verbatim>\<open>...v\<close> copies, in the order it copies
  them. Spreading \<^verbatim>\<open>undefined\<close>, \<^verbatim>\<open>null\<close>, a boolean or a number copies nothing.
\<close>

definition own_enumerable :: "store \<Rightarrow> jsval \<Rightarrow> props" where
  "own_enumerable h v =
     (case v of
        JRef a \<Rightarrow> own_property_order (object_at h a)
      | JStr s \<Rightarrow> string_props s
      | _ \<Rightarrow> [])"

text \<open>\<^verbatim>\<open>Object.entries(v)\<close> converts \<open>v\<close> to an object first and throws on \<^verbatim>\<open>undefined\<close> and \<^verbatim>\<open>null\<close>.
  The arrays it builds are temporaries that the result never refers to; the model does
  not place them in the store.\<close>

definition Object_entries :: "store \<Rightarrow> jsval \<Rightarrow> error + props" where
  "Object_entries h v =
     (case v of
        JUndefined \<Rightarrow> Inl TypeError
      | JNull \<Rightarrow> Inl TypeError
      | _ \<Rightarrow> Inr (own_enumerable h v))"

text \<open>
  \<^verbatim>\<open>options.defaultFields\<close>: reading a property of \<^verbatim>\<open>undefined\<close> or \<^verbatim>\<open>null\<close> throws, a
  missing property reads as \<^verbatim>\<open>undefined\<close> (no prototype defines \<^verbatim>\<open>defaultFields\<close>).
\<close>

definition get_defaultFields :: "store \<Rightarrow> jsval \<Rightarrow> error + jsval" where
  "get_defaultFields h options =
     (case options of
        JUndefined \<Rightarrow> Inl TypeError
      | JNull \<Rightarrow> Inl TypeError
      | JRef a \<Rightarrow> Inr (case map_of (object_at h a) ''defaultFields'' of
                        Some d \<Rightarrow> d
                      | None \<Rightarrow> JUndefined)
      | _ \<Rightarrow> Inr JUndefined)"

subsection \<open>Object literals\<close>

text \<open>
  Defining a property in an object literal (\<^verbatim>\<open>name: key\<close>, \<^verbatim>\<open>[key]: e\<close>, or one property
  of a spread): an existing key keeps its position and takes the new value, a new key is
  appended.
\<close>

fun define_prop :: "props \<Rightarrow> string \<Rightarrow> jsval \<Rightarrow> props" where
  "define_prop [] k v = [(k, v)]"
| "define_prop ((k', v') # ps) k v =
     (if k' = k then (k, v) # ps else (k', v') # define_prop ps k v)"

definition copy_data_properties :: "props \<Rightarrow> props \<Rightarrow> props" where
  "copy_data_properties target source = foldl (\<lambda>t (k, v). define_prop t k v) target source"

definition spread :: "store \<Rightarrow> props \<Rightarrow> jsval \<Rightarrow> props" where
  "spread h target v = copy_data_properties target (own_enumerable h v)"

section \<open>createEnum\<close>

text \<open>
  The inner literal \<^verbatim>\<open>{ ...options.defaultFields, name: key, index, ...value }\<close>, given
  the value \<open>d\<close> of \<^verbatim>\<open>options.defaultFields\<close>.
\<close>

definition entry_literal :: "store \<Rightarrow> jsval \<Rightarrow> string \<Rightarrow> nat \<Rightarrow> jsval \<Rightarrow> props" where
  "entry_literal h d key index value =
     spread h
       (define_prop (define_prop (spread h [] d) ''name'' (JStr key))
          ''index'' (JNum (int index)))
       value"

text \<open>
  The callback of \<^verbatim>\<open>reduce\<close>. The outer literal is allocated first, then the inner one
  (where reading \<^verbatim>\<open>options.defaultFields\<close> may throw), and the outer literal receives the
  address of the inner one under \<^verbatim>\<open>[key]\<close>. The new accumulator is the outer literal.
\<close>

definition reducer :: "jsval \<Rightarrow> store \<Rightarrow> addr \<Rightarrow> string \<times> jsval \<Rightarrow> nat \<Rightarrow> error + store \<times> addr" where
  "reducer options h acc kv index =
     (case get_defaultFields h options of
        Inl e \<Rightarrow> Inl e
      | Inr d \<Rightarrow>
          let outer = length h;
              inner = Suc (length h);
              entry = entry_literal h d (fst kv) index (snd kv);
              table = define_prop (spread h [] (JRef acc)) (fst kv) (JRef inner)
          in Inr (h @ [table, entry], outer))"

text \<open>\<^verbatim>\<open>Array.prototype.reduce\<close> with an initial value: left to right, with the position.\<close>

fun reduce :: "(store \<Rightarrow> addr \<Rightarrow> string \<times> jsval \<Rightarrow> nat \<Rightarrow> error + store \<times> addr)
     \<Rightarrow> store \<Rightarrow> addr \<Rightarrow> props \<Rightarrow> nat \<Rightarrow> error + store \<times> addr" where
  "reduce f h acc [] i = Inr (h, acc)"
| "reduce f h acc (kv # kvs) i =
     (case f h acc kv i of
        Inl e \<Rightarrow> Inl e
      | Inr (h', acc') \<Rightarrow> reduce f h' acc' kvs (Suc i))"

text \<open>
  The function itself. A missing or \<^verbatim>\<open>undefined\<close> second argument takes the default
  \<^verbatim>\<open>{}\<close>, a fresh object; then \<^verbatim>\<open>Object.entries(obj)\<close> is evaluated, the initial
  accumulator \<^verbatim>\<open>{}\<close> is allocated, and \<^verbatim>\<open>reduce\<close> runs. The result is the new store and
  the address of the returned object.
\<close>

definition createEnum :: "store \<Rightarrow> jsval \<Rightarrow> jsval \<Rightarrow> error + store \<times> addr" where
  "createEnum h obj options_arg =
     (let h1 = (if options_arg = JUndefined then h @ [[]] else h);
          options = (if options_arg = JUndefined then JRef (length h) else options_arg)
      in case Object_entries h1 obj of
           Inl e \<Rightarrow> Inl e
         | Inr entries \<Rightarrow> reduce (reducer options) (h1 @ [[]]) (length h1) entries 0)"

section \<open>Well-formed stores and observations\<close>

text \<open>
  In a JavaScript heap the keys of an object are pairwise different and every reference
  points to an object of the heap.
\<close>

definition valid_value :: "store \<Rightarrow> jsval \<Rightarrow> bool" where
  "valid_value h v = (case v of JRef a \<Rightarrow> a < length h | _ \<Rightarrow> True)"

definition wf_store :: "store \<Rightarrow> bool" where
  "wf_store h =
     list_all (\<lambda>ps. distinct (map fst ps) \<and> list_all (\<lambda>p. valid_value h (snd p)) ps) h"

text \<open>
  A call \<^verbatim>\<open>createEnum(obj, options)\<close> on a mapping: \<open>obj\<close> is an object of a well-formed
  store, and \<open>options\<close> is absent (\<^verbatim>\<open>undefined\<close>) or any value of the store but \<^verbatim>\<open>null\<close>.
\<close>

definition valid_call :: "store \<Rightarrow> jsval \<Rightarrow> jsval \<Rightarrow> bool" where
  "valid_call h obj options =
     (wf_store h \<and> (case obj of JRef a \<Rightarrow> a < length h | _ \<Rightarrow> False)
      \<and> valid_value h options \<and> options \<noteq> JNull)"

text \<open>The \<^verbatim>\<open>defaultFields\<close> bag that a call uses: \<^verbatim>\<open>undefined\<close> when there is none.\<close>

definition default_fields :: "store \<Rightarrow> jsval \<Rightarrow> jsval" where
  "default_fields h options =
     (case get_defaultFields h options of Inl e \<Rightarrow> JUndefined | Inr d \<Rightarrow> d)"

text \<open>\<open>own_field h v f\<close> is the own property \<open>f\<close> of \<open>v\<close>, \<open>None\<close> when \<open>v\<close> has no such key.\<close>

definition own_field :: "store \<Rightarrow> jsval \<Rightarrow> string \<Rightarrow> jsval option" where
  "own_field h v f = map_of (own_enumerable h v) f"

text \<open>
  Observations of a result: the keys of the returned table in iteration order, the
  address of the entry \<^verbatim>\<open>output[k]\<close>, the entry as an object, and the field
  \<^verbatim>\<open>output[k][f]\<close>. Each is \<open>None\<close> when the call threw or the key is missing.
\<close>

definition output_keys :: "error + store \<times> addr \<Rightarrow> string list option" where
  "output_keys r =
     (case r of Inl e \<Rightarrow> None | Inr (h', out) \<Rightarrow> Some (map fst (own_enumerable h' (JRef out))))"

definition output_ref :: "error + store \<times> addr \<Rightarrow> string \<Rightarrow> addr option" where
  "output_ref r k =
     (case r of
        Inl e \<Rightarrow> None
      | Inr (h', out) \<Rightarrow>
          (case map_of (object_at h' out) k of Some (JRef e) \<Rightarrow> Some e | _ \<Rightarrow> None))"

definition output_entry :: "error + store \<times> addr \<Rightarrow> string \<Rightarrow> props option" where
  "output_entry r k =
     (case r of
        Inl e \<Rightarrow> None
      | Inr (h', out) \<Rightarrow>
          (case output_ref r k of None \<Rightarrow> None | Some e \<Rightarrow> Some (object_at h' e)))"

definition output_field :: "error + store \<times> addr \<Rightarrow> string \<Rightarrow> string \<Rightarrow> jsval option" where
  "output_field r k f =
     (case output_entry r k of None \<Rightarrow> None | Some ps \<Rightarrow> map_of ps f)"

text \<open>
  Structural equality of two values that live in two stores, down to depth \<open>n\<close>:
  primitives are equal when they are the same primitive, objects when they have the same
  keys in the same iteration order and structurally equal values. Object graphs may be
  cyclic, hence the depth; two values are structurally equal when they are so at every
  depth.
\<close>

fun struct_eq :: "nat \<Rightarrow> store \<Rightarrow> jsval \<Rightarrow> store \<Rightarrow> jsval \<Rightarrow> bool" where
  "struct_eq 0 h1 v1 h2 v2 =
     (case v1 of
        JRef a \<Rightarrow> (case v2 of JRef b \<Rightarrow> True | _ \<Rightarrow> False)
      | _ \<Rightarrow> v1 = v2)"
| "struct_eq (Suc n) h1 v1 h2 v2 =
     (case v1 of
        JRef a \<Rightarrow>
          (case v2 of
             JRef b \<Rightarrow>
               list_all2 (\<lambda>p q. fst p = fst q \<and> struct_eq n h1 (snd p) h2 (snd q))
                 (own_enumerable h1 v1) (own_enumerable h2 v2)
           | _ \<Rightarrow> False)
      | _ \<Rightarrow> v1 = v2)"

text \<open>The same, for two property lists: the same keys in the same order, equal values.\<close>

definition props_eq :: "nat \<Rightarrow> store \<Rightarrow> store \<Rightarrow> props \<Rightarrow> props \<Rightarrow> bool" where
  "props_eq n h1 h2 xs ys =
     list_all2 (\<lambda>p q. fst p = fst q \<and> struct_eq n h1 (snd p) h2 (snd q)) xs ys"

text \<open>
  A list of keys is in own-key order when its array indices come first, ascending, and
  no array index follows another key.
\<close>

definition key_ordered :: "string list \<Rightarrow> bool" where
  "key_ordered ks =
     (sorted (map decimal_value (takeWhile is_array_index ks))
      \<and> list_all (\<lambda>k. \<not> is_array_index k) (dropWhile is_array_index ks))"

section \<open>Example stores\<close>

text \<open>
  The permissions example of the documentation: object 0 is the mapping, objects 1 and 2
  are the specs of \<^verbatim>\<open>VIEWER\<close> and \<^verbatim>\<open>EDITOR\<close>, object 3 is the options object and
  object 4 its \<^verbatim>\<open>defaultFields\<close>.
\<close>

definition permissions_store :: store where
  "permissions_store =
     [[(''VIEWER'', JRef 1), (''EDITOR'', JRef 2)],
      [(''label'', JStr ''Viewer'')],
      [(''label'', JStr ''Editor''), (''canEdit'', JBool True)],
      [(''defaultFields'', JRef 4)],
      [(''canEdit'', JBool False)]]"

text \<open>
  A mapping whose specs and defaults define \<^verbatim>\<open>name\<close> and \<^verbatim>\<open>index\<close> themselves, and a
  field bound to \<^verbatim>\<open>undefined\<close>. Objects 3 and 5 are two options objects with the same
  \<^verbatim>\<open>defaultFields\<close>, object 4; object 6 is a nested value of the spec of \<^verbatim>\<open>B\<close>.
\<close>

definition override_store :: store where
  "override_store =
     [[(''A'', JRef 1), (''B'', JRef 2)],
      [(''name'', JStr ''custom''), (''f'', JUndefined)],
      [(''index'', JNum 7), (''tags'', JRef 6)],
      [(''defaultFields'', JRef 4), (''extra'', JBool True)],
      [(''name'', JStr ''dflt''), (''index'', JNum 99), (''f'', JNum 1)],
      [(''defaultFields'', JRef 4)],
      [(''0'', JStr ''x'')]]"

text \<open>Two entries with empty specs: \<^verbatim>\<open>{A: {}, B: {}}\<close>.\<close>

definition empty_specs_store :: store where
  "empty_specs_store = [[(''A'', JRef 1), (''B'', JRef 2)], [], []]"

text \<open>
  The same two empty specs with an options object, object 3, whose \<^verbatim>\<open>defaultFields\<close> is
  object 4.
\<close>

definition defaults_store :: store where
  "defaults_store =
     [[(''A'', JRef 1), (''B'', JRef 2)],
      [],
      [],
      [(''defaultFields'', JRef 4)],
      [(''canEdit'', JBool False), (''name'', JStr ''dflt'')]]"

text \<open>
  A mapping with array-index keys defined after and out of order:
  \<^verbatim>\<open>{b: {}, 10: {x: 1}, 9: {}}\<close>.
\<close>

definition mixed_keys_store :: store where
  "mixed_keys_store =
     [[(''b'', JRef 1), (''10'', JRef 2), (''9'', JRef 3)], [], [(''x'', JNum 1)], []]"

text \<open>
  The colour example \<^verbatim>\<open>{RED: {hex: "#F00"}, GREEN: {hex: "#0F0"}}\<close>, and the same mapping
  laid out differently in another store, with an options object.
\<close>

definition colours_store :: store where
  "colours_store =
     [[(''RED'', JRef 1), (''GREEN'', JRef 2)],
      [(''hex'', JStr ''#F00'')],
      [(''hex'', JStr ''#0F0'')],
      [(''defaultFields'', JRef 4)],
      [(''rgb'', JBool True)]]"

definition colours_store' :: store where
  "colours_store' =
     [[(''rgb'', JBool True)],
      [(''hex'', JStr ''#0F0'')],
      [(''defaultFields'', JRef 0)],
      [(''hex'', JStr ''#F00'')],
      [(''RED'', JRef 3), (''GREEN'', JRef 1)]]"

section \<open>Object literals and key order\<close>

lemma map_of_define_prop: "map_of (define_prop ps k v) = (map_of ps)(k \<mapsto> v)"
  by (induction ps) (auto simp: fun_eq_iff)

lemma define_prop_new: "k \<notin> fst ` set ps \<Longrightarrow> define_prop ps k v = ps @ [(k, v)]"
  by (induction ps) auto

lemma keys_define_prop: "fst ` set (define_prop ps k v) = insert k (fst ` set ps)"
  by (simp add: dom_map_of_conv_image_fst [symmetric] map_of_define_prop)

lemma distinct_define_prop:
  "distinct (map fst ps) \<Longrightarrow> distinct (map fst (define_prop ps k v))"
  by (induction ps) (auto simp: keys_define_prop)

lemma map_of_copy_data_properties:
  "map_of (copy_data_properties t s) = map_of t ++ map_of (rev s)"
  unfolding copy_data_properties_def
  by (induction s arbitrary: t) (auto simp: map_of_define_prop fun_eq_iff map_add_def split: option.splits)

lemma copy_data_properties_append:
  "distinct (map fst (t @ s)) \<Longrightarrow> copy_data_properties t s = t @ s"
  unfolding copy_data_properties_def
proof (induction s arbitrary: t)
  case Nil
  then show ?case by simp
next
  case (Cons p s)
  obtain k v where p: "p = (k, v)" by (cases p)
  from Cons.prems have "k \<notin> fst ` set t" by (auto simp: p)
  then have "define_prop t k v = t @ [(k, v)]" by (rule define_prop_new)
  moreover have "distinct (map fst ((t @ [(k, v)]) @ s))" using Cons.prems by (simp add: p)
  ultimately show ?case using Cons.IH [of "t @ [(k, v)]"] by (simp add: p)
qed

lemma distinct_copy_data_properties:
  "distinct (map fst t) \<Longrightarrow> distinct (map fst (copy_data_properties t s))"
  unfolding copy_data_properties_def
  by (induction s arbitrary: t) (auto simp: distinct_define_prop)

lemma keys_copy_data_properties:
  "fst ` set (copy_data_properties t s) = fst ` set t \<union> fst ` set s"
proof -
  have "fst ` set (copy_data_properties t s) = dom (map_of (copy_data_properties t s))"
    by (simp add: dom_map_of_conv_image_fst)
  also have "\<dots> = dom (map_of t) \<union> dom (map_of (rev s))"
    by (simp add: map_of_copy_data_properties Un_commute)
  also have "\<dots> = fst ` set t \<union> fst ` set s"
    by (simp add: dom_map_of_conv_image_fst)
  finally show ?thesis .
qed

lemma set_own_property_order: "set (own_property_order ps) = set ps"
  by (auto simp: own_property_order_def)

lemma distinct_own_property_order:
  "distinct (map fst ps) \<Longrightarrow> distinct (map fst (own_property_order ps))"
  by (auto simp: own_property_order_def distinct_map inj_on_def)

lemma map_of_own_property_order:
  "distinct (map fst ps) \<Longrightarrow> map_of (own_property_order ps) = map_of ps"
  by (simp add: map_of_inject_set distinct_own_property_order set_own_property_order)

lemma map_of_rev_distinct: "distinct (map fst ps) \<Longrightarrow> map_of (rev ps) = map_of ps"
  by (simp add: map_of_inject_set rev_map [symmetric])


lemma own_property_order_split:
  assumes "\<forall>p\<in>set xs. is_array_index (fst p)"
    and "sorted (map (\<lambda>p. decimal_value (fst p)) xs)"
    and "\<forall>p\<in>set ys. \<not> is_array_index (fst p)"
  shows "own_property_order (xs @ ys) = xs @ ys"
proof -
  have "filter (\<lambda>p. is_array_index (fst p)) xs = xs" "filter (\<lambda>p. is_array_index (fst p)) ys = []"
    "filter (\<lambda>p. \<not> is_array_index (fst p)) xs = []" "filter (\<lambda>p. \<not> is_array_index (fst p)) ys = ys"
    using assms by (auto simp: filter_id_conv filter_empty_conv)
  then show ?thesis
    using assms(2) by (simp add: own_property_order_def sort_key_id_if_sorted)
qed

lemma key_ordered_iff:
  "key_ordered ks \<longleftrightarrow>
     (\<exists>xs ys. ks = xs @ ys \<and> (\<forall>k\<in>set xs. is_array_index k)
        \<and> sorted (map decimal_value xs) \<and> (\<forall>k\<in>set ys. \<not> is_array_index k))"
proof
  assume "key_ordered ks"
  then have "ks = takeWhile is_array_index ks @ dropWhile is_array_index ks
      \<and> (\<forall>k\<in>set (takeWhile is_array_index ks). is_array_index k)
      \<and> sorted (map decimal_value (takeWhile is_array_index ks))
      \<and> (\<forall>k\<in>set (dropWhile is_array_index ks). \<not> is_array_index k)"
    by (auto simp: key_ordered_def list_all_iff dest: set_takeWhileD)
  then show "\<exists>xs ys. ks = xs @ ys \<and> (\<forall>k\<in>set xs. is_array_index k)
        \<and> sorted (map decimal_value xs) \<and> (\<forall>k\<in>set ys. \<not> is_array_index k)"
    by blast
next
  assume "\<exists>xs ys. ks = xs @ ys \<and> (\<forall>k\<in>set xs. is_array_index k)
        \<and> sorted (map decimal_value xs) \<and> (\<forall>k\<in>set ys. \<not> is_array_index k)"
  then obtain xs ys where ks: "ks = xs @ ys" and xs: "\<forall>k\<in>set xs. is_array_index k"
    and srt: "sorted (map decimal_value xs)" and ys: "\<forall>k\<in>set ys. \<not> is_array_index k"
    by blast
  have "takeWhile is_array_index ys = []" "dropWhile is_array_index ys = ys"
    using ys by (cases ys; simp)+
  then have "takeWhile is_array_index ks = xs" "dropWhile is_array_index ks = ys"
    using xs by (simp_all add: ks)
  then show "key_ordered ks"
    using srt ys by (simp add: key_ordered_def list_all_iff)
qed

lemma key_ordered_prefix: "key_ordered (ks @ ks') \<Longrightarrow> key_ordered ks"
proof -
  assume "key_ordered (ks @ ks')"
  then obtain xs ys where eq: "ks @ ks' = xs @ ys" and xs: "\<forall>k\<in>set xs. is_array_index k"
    and srt: "sorted (map decimal_value xs)" and ys: "\<forall>k\<in>set ys. \<not> is_array_index k"
    unfolding key_ordered_iff by blast
  from eq obtain us where "ks = xs @ us \<and> us @ ks' = ys \<or> ks @ us = xs \<and> ks' = us @ ys"
    by (auto simp: append_eq_append_conv2)
  then show "key_ordered ks"
  proof
    assume a: "ks = xs @ us \<and> us @ ks' = ys"
    then have "\<forall>k\<in>set us. \<not> is_array_index k" using ys by auto
    then show ?thesis unfolding key_ordered_iff using a xs srt by blast
  next
    assume a: "ks @ us = xs \<and> ks' = us @ ys"
    then have "\<forall>k\<in>set ks. is_array_index k" "sorted (map decimal_value ks)"
      using xs srt by (auto simp: sorted_append)
    then have "ks = ks @ [] \<and> (\<forall>k\<in>set ks. is_array_index k)
        \<and> sorted (map decimal_value ks) \<and> (\<forall>k\<in>set []. \<not> is_array_index k)"
      by simp
    then show ?thesis unfolding key_ordered_iff by blast
  qed
qed

lemma key_ordered_own_property_order: "key_ordered (map fst (own_property_order ps))"
proof -
  let ?xs = "sort_key (\<lambda>p. decimal_value (fst p)) (filter (\<lambda>p. is_array_index (fst p)) ps)"
  let ?ys = "filter (\<lambda>p. \<not> is_array_index (fst p)) ps"
  have "sorted (map (\<lambda>p. decimal_value (fst p)) ?xs)" by (rule sorted_sort_key)
  then have "sorted (map decimal_value (map fst ?xs))" by (simp add: comp_def)
  moreover have "\<forall>k\<in>set (map fst ?xs). is_array_index k" by auto
  moreover have "\<forall>k\<in>set (map fst ?ys). \<not> is_array_index k" by auto
  moreover have "map fst (own_property_order ps) = map fst ?xs @ map fst ?ys"
    by (simp add: own_property_order_def)
  ultimately show ?thesis unfolding key_ordered_iff by blast
qed

lemma own_property_order_id:
  assumes "key_ordered (map fst ps)"
  shows "own_property_order ps = ps"
proof -
  from assms obtain xs ys where eq: "map fst ps = xs @ ys" and xs: "\<forall>k\<in>set xs. is_array_index k"
    and srt: "sorted (map decimal_value xs)" and ys: "\<forall>k\<in>set ys. \<not> is_array_index k"
    unfolding key_ordered_iff by blast
  from eq obtain us vs where ps: "ps = us @ vs" and us: "xs = map fst us" and vs: "ys = map fst vs"
    by (auto simp: map_eq_append_conv)
  have "sorted (map (\<lambda>p. decimal_value (fst p)) us)" using srt by (simp add: us comp_def)
  moreover have "\<forall>p\<in>set us. is_array_index (fst p)" using xs by (simp add: us)
  moreover have "\<forall>p\<in>set vs. \<not> is_array_index (fst p)" using ys by (simp add: vs)
  ultimately show ?thesis unfolding ps by (intro own_property_order_split)
qed

lemma own_property_order_no_index:
  "\<forall>p\<in>set ps. \<not> is_array_index (fst p) \<Longrightarrow> own_property_order ps = ps"
  using own_property_order_split [of "[]" ps] by simp

section \<open>Reading an extended store\<close>

lemma object_at_append: "a < length h \<Longrightarrow> object_at (h @ ext) a = object_at h a"
  by (simp add: object_at_def nth_append)

lemma valid_value_append: "valid_value h v \<Longrightarrow> valid_value (h @ ext) v"
  by (cases v) (simp_all add: valid_value_def)

lemma own_enumerable_append:
  "valid_value h v \<Longrightarrow> own_enumerable (h @ ext) v = own_enumerable h v"
  by (cases v) (simp_all add: own_enumerable_def valid_value_def object_at_append)

lemma get_defaultFields_append:
  "valid_value h options \<Longrightarrow> get_defaultFields (h @ ext) options = get_defaultFields h options"
  by (cases options) (simp_all add: get_defaultFields_def valid_value_def object_at_append)

lemma entry_literal_append:
  "valid_value h d \<Longrightarrow> valid_value h v \<Longrightarrow>
   entry_literal (h @ ext) d k i v = entry_literal h d k i v"
  by (simp add: entry_literal_def spread_def own_enumerable_append)

section \<open>Well-formed stores\<close>

lemma wf_store_object:
  assumes "wf_store h"
  shows "distinct (map fst (object_at h a))"
    and "p \<in> set (object_at h a) \<Longrightarrow> valid_value h (snd p)"
  using assms by (auto simp: wf_store_def object_at_def list_all_iff)

lemma distinct_own_enumerable:
  "wf_store h \<Longrightarrow> distinct (map fst (own_enumerable h (JRef a)))"
  by (simp add: own_enumerable_def distinct_own_property_order wf_store_object)

lemma valid_own_enumerable:
  "wf_store h \<Longrightarrow> p \<in> set (own_enumerable h v) \<Longrightarrow> valid_value h (snd p)"
  by (cases v)
    (auto simp: own_enumerable_def set_own_property_order string_props_def valid_value_def
      dest: wf_store_object(2))

lemma valid_default_fields:
  assumes "wf_store h"
  shows "valid_value h (default_fields h options)"
proof (cases options)
  case (JRef a)
  show ?thesis
  proof (cases "map_of (object_at h a) ''defaultFields''")
    case None
    then show ?thesis by (simp add: default_fields_def get_defaultFields_def JRef valid_value_def)
  next
    case (Some d)
    then have "(''defaultFields'', d) \<in> set (object_at h a)" by (rule map_of_SomeD)
    then have "valid_value h d" using wf_store_object(2) [OF assms] by fastforce
    then show ?thesis using Some by (simp add: default_fields_def get_defaultFields_def JRef)
  qed
qed (simp_all add: default_fields_def get_defaultFields_def valid_value_def)

section \<open>The loop\<close>

lemma reduce_reducer:
  assumes "valid_value B options" and "get_defaultFields B options = Inr d"
    and "valid_value B d" and "\<forall>p\<in>set rest. valid_value B (snd p)"
    and "distinct (map fst (pre @ rest))" and "key_ordered (map fst (pre @ rest))"
    and "h = B @ ext" and "acc < length h" and "h ! acc = tbl"
    and "map fst tbl = map fst pre"
  shows "\<exists>news.
      reduce (reducer options) h acc rest (length pre)
        = Inr (h @ news, if rest = [] then acc else length h + 2 * length rest - 2)
      \<and> length news = 2 * length rest
      \<and> (h @ news) ! (if rest = [] then acc else length h + 2 * length rest - 2)
          = tbl @ map (\<lambda>m. (fst (rest ! m), JRef (length h + 2 * m + 1))) [0..<length rest]
      \<and> (\<forall>m<length rest. news ! (2 * m + 1)
            = entry_literal B d (fst (rest ! m)) (length pre + m) (snd (rest ! m)))"
  using assms
proof (induction rest arbitrary: pre h ext acc tbl)
  case Nil
  then show ?case by simp
next
  case (Cons kv rest)
  note prems = Cons.prems
  let ?t = "tbl @ [(fst kv, JRef (Suc (length h)))]"
  let ?e = "entry_literal B d (fst kv) (length pre) (snd kv)"
  let ?h = "h @ [?t, ?e]"
  have keys: "fst ` set tbl = set (map fst pre)"
    using prems(10) by (metis list.set_map)
  have step: "reducer options h acc kv (length pre) = Inr (?h, length h)"
  proof -
    have g: "get_defaultFields h options = Inr d"
      using prems(1,2,7) by (simp add: get_defaultFields_append)
    have ko: "key_ordered (map fst tbl)"
      using key_ordered_prefix [of "map fst pre" "map fst (kv # rest)"] prems(6,10) by simp
    have dt: "distinct (map fst tbl)" using prems(5,10) by simp
    have "object_at h acc = tbl" using prems(8,9) by (simp add: object_at_def)
    then have "own_enumerable h (JRef acc) = tbl"
      using ko by (simp add: own_enumerable_def own_property_order_id)
    then have sp: "spread h [] (JRef acc) = tbl"
      using dt copy_data_properties_append [of "[]" tbl] by (simp add: spread_def)
    have "fst kv \<notin> fst ` set tbl" using prems(5) keys by simp
    then have tb: "define_prop tbl (fst kv) (JRef (Suc (length h))) = ?t"
      by (rule define_prop_new)
    have en: "entry_literal h d (fst kv) (length pre) (snd kv) = ?e"
      using prems(3,4,7) by (simp add: entry_literal_append)
    show ?thesis by (simp add: reducer_def g sp tb en Let_def)
  qed
  have "\<exists>news.
      reduce (reducer options) ?h (length h) rest (length (pre @ [kv]))
        = Inr (?h @ news, if rest = [] then length h else length ?h + 2 * length rest - 2)
      \<and> length news = 2 * length rest
      \<and> (?h @ news) ! (if rest = [] then length h else length ?h + 2 * length rest - 2)
          = ?t @ map (\<lambda>m. (fst (rest ! m), JRef (length ?h + 2 * m + 1))) [0..<length rest]
      \<and> (\<forall>m<length rest. news ! (2 * m + 1)
            = entry_literal B d (fst (rest ! m)) (length (pre @ [kv]) + m) (snd (rest ! m)))"
  proof (rule Cons.IH [of "pre @ [kv]" ?h "ext @ [?t, ?e]" "length h" ?t])
    show "valid_value B options" "get_defaultFields B options = Inr d" "valid_value B d"
      using prems by simp_all
    show "\<forall>p\<in>set rest. valid_value B (snd p)" using prems(4) by simp
    show "distinct (map fst ((pre @ [kv]) @ rest))" using prems(5) by simp
    show "key_ordered (map fst ((pre @ [kv]) @ rest))" using prems(6) by simp
    show "?h = B @ ext @ [?t, ?e]" using prems(7) by simp
    show "length h < length ?h" by simp
    show "?h ! length h = ?t" by (simp add: nth_append)
    show "map fst ?t = map fst (pre @ [kv])" using prems(10) by simp
  qed
  then obtain news where
    r: "reduce (reducer options) ?h (length h) rest (length (pre @ [kv]))
        = Inr (?h @ news, if rest = [] then length h else length ?h + 2 * length rest - 2)"
    and len: "length news = 2 * length rest"
    and tb: "(?h @ news) ! (if rest = [] then length h else length ?h + 2 * length rest - 2)
          = ?t @ map (\<lambda>m. (fst (rest ! m), JRef (length ?h + 2 * m + 1))) [0..<length rest]"
    and en: "\<forall>m<length rest. news ! (2 * m + 1)
            = entry_literal B d (fst (rest ! m)) (length (pre @ [kv]) + m) (snd (rest ! m))"
    by blast
  let ?news = "[?t, ?e] @ news"
  let ?out = "if kv # rest = [] then acc else length h + 2 * length (kv # rest) - 2"
  have out: "?out = (if rest = [] then length h else length ?h + 2 * length rest - 2)"
    by (cases rest) simp_all
  have 1: "reduce (reducer options) h acc (kv # rest) (length pre) = Inr (h @ ?news, ?out)"
    using step r out by simp
  have 2: "length ?news = 2 * length (kv # rest)" using len by simp
  have 3: "(h @ ?news) ! ?out
      = tbl @ map (\<lambda>m. (fst ((kv # rest) ! m), JRef (length h + 2 * m + 1))) [0..<length (kv # rest)]"
    using tb out by (simp add: map_upt_Suc del: upt_Suc)
  have 4: "\<forall>m<length (kv # rest). ?news ! (2 * m + 1)
      = entry_literal B d (fst ((kv # rest) ! m)) (length pre + m) (snd ((kv # rest) ! m))"
  proof (intro allI impI)
    fix m assume m: "m < length (kv # rest)"
    show "?news ! (2 * m + 1)
      = entry_literal B d (fst ((kv # rest) ! m)) (length pre + m) (snd ((kv # rest) ! m))"
    proof (cases m)
      case 0
      then show ?thesis by simp
    next
      case (Suc m')
      then have "m' < length rest" using m by simp
      then show ?thesis using en Suc by simp
    qed
  qed
  from 1 2 3 4 show ?case by blast
qed

section \<open>The result of a call\<close>

lemma createEnum_from:
  assumes "valid_value B options" and "get_defaultFields B options = Inr d"
    and "valid_value B d" and "\<forall>p\<in>set es. valid_value B (snd p)"
    and "distinct (map fst es)" and "key_ordered (map fst es)"
  shows "\<exists>h'.
      reduce (reducer options) (B @ [[]]) (length B) es 0
        = Inr (h', length B + 2 * length es - (if es = [] then 0 else 1))
      \<and> take (Suc (length B)) h' = B @ [[]]
      \<and> length h' = length B + 1 + 2 * length es
      \<and> h' ! (length B + 2 * length es - (if es = [] then 0 else 1))
          = map (\<lambda>m. (fst (es ! m), JRef (length B + 2 * m + 2))) [0..<length es]
      \<and> (\<forall>m<length es. h' ! (length B + 2 * m + 2)
            = entry_literal B d (fst (es ! m)) m (snd (es ! m)))"
proof -
  let ?h = "B @ [[]]"
  let ?out = "if es = [] then length B else length ?h + 2 * length es - 2"
  have "\<exists>news.
      reduce (reducer options) ?h (length B) es (length ([] :: props))
        = Inr (?h @ news, ?out)
      \<and> length news = 2 * length es
      \<and> (?h @ news) ! ?out
          = [] @ map (\<lambda>m. (fst (es ! m), JRef (length ?h + 2 * m + 1))) [0..<length es]
      \<and> (\<forall>m<length es. news ! (2 * m + 1)
            = entry_literal B d (fst (es ! m)) (length ([] :: props) + m) (snd (es ! m)))"
    by (rule reduce_reducer [of B options d es "[]" ?h "[[]]" "length B" "[]"])
      (use assms in \<open>simp_all add: nth_append\<close>)
  then obtain news where
    r: "reduce (reducer options) ?h (length B) es 0 = Inr (?h @ news, ?out)"
    and len: "length news = 2 * length es"
    and tb: "(?h @ news) ! ?out
          = map (\<lambda>m. (fst (es ! m), JRef (length ?h + 2 * m + 1))) [0..<length es]"
    and en: "\<forall>m<length es. news ! (2 * m + 1) = entry_literal B d (fst (es ! m)) m (snd (es ! m))"
    by auto
  have out: "?out = length B + 2 * length es - (if es = [] then 0 else 1)"
    by (cases es) simp_all
  have "\<forall>m<length es. (?h @ news) ! (length B + 2 * m + 2)
      = entry_literal B d (fst (es ! m)) m (snd (es ! m))"
  proof (intro allI impI)
    fix m assume "m < length es"
    moreover have "(?h @ news) ! (length B + 2 * m + 2) = news ! (2 * m + 1)"
      by (simp add: nth_append)
    ultimately show "(?h @ news) ! (length B + 2 * m + 2)
      = entry_literal B d (fst (es ! m)) m (snd (es ! m))"
      using en by simp
  qed
  then show ?thesis using r len tb out by (intro exI [of _ "?h @ news"]) simp
qed

lemma createEnum_result:
  assumes "valid_call h obj options"
  defines "es \<equiv> own_enumerable h obj"
    and "d \<equiv> default_fields h options"
    and "base \<equiv> (if options = JUndefined then Suc (length h) else length h)"
  shows "\<exists>h'.
      createEnum h obj options
        = Inr (h', base + 2 * length es - (if es = [] then 0 else 1))
      \<and> take (length h) h' = h
      \<and> length h' = base + 1 + 2 * length es
      \<and> h' ! (base + 2 * length es - (if es = [] then 0 else 1))
          = map (\<lambda>m. (fst (es ! m), JRef (base + 2 * m + 2))) [0..<length es]
      \<and> (\<forall>m<length es. h' ! (base + 2 * m + 2)
            = entry_literal h d (fst (es ! m)) m (snd (es ! m)))"
proof -
  from assms(1) obtain a where wf: "wf_store h" and obj: "obj = JRef a" and a: "a < length h"
    and vo: "valid_value h options" and nn: "options \<noteq> JNull"
    by (auto simp: valid_call_def split: jsval.splits)
  let ?B = "if options = JUndefined then h @ [[]] else h"
  let ?o = "if options = JUndefined then JRef (length h) else options"
  have B: "?B = h @ (if options = JUndefined then [[]] else [])" by simp
  have lenB: "length ?B = base" by (simp add: base_def)
  have vobj: "valid_value h obj" by (simp add: obj valid_value_def a)
  have es: "own_enumerable ?B obj = es"
    using own_enumerable_append [OF vobj] by (simp add: es_def)
  have vd: "valid_value h d" unfolding d_def by (rule valid_default_fields [OF wf])
  have ves: "\<forall>p\<in>set es. valid_value h (snd p)"
    unfolding es_def using valid_own_enumerable [OF wf] by blast
  have 1: "valid_value ?B ?o" using vo by (simp add: valid_value_def split: jsval.splits)
  have 2: "get_defaultFields ?B ?o = Inr d"
    using nn by (cases options)
      (simp_all add: d_def default_fields_def get_defaultFields_def object_at_def)
  have 3: "valid_value ?B d" using vd valid_value_append [of h d "[[]]"] by simp
  have 4: "\<forall>p\<in>set es. valid_value ?B (snd p)"
    using ves valid_value_append [of h _ "[[]]"] by simp
  have 5: "distinct (map fst es)" unfolding es_def obj by (rule distinct_own_enumerable [OF wf])
  have 6: "key_ordered (map fst es)"
    by (simp add: es_def obj own_enumerable_def key_ordered_own_property_order)
  from createEnum_from [OF 1 2 3 4 5 6] obtain h' where
    r: "reduce (reducer ?o) (?B @ [[]]) (length ?B) es 0
        = Inr (h', length ?B + 2 * length es - (if es = [] then 0 else 1))"
    and tk: "take (Suc (length ?B)) h' = ?B @ [[]]"
    and len: "length h' = length ?B + 1 + 2 * length es"
    and tb: "h' ! (length ?B + 2 * length es - (if es = [] then 0 else 1))
          = map (\<lambda>m. (fst (es ! m), JRef (length ?B + 2 * m + 2))) [0..<length es]"
    and en: "\<forall>m<length es. h' ! (length ?B + 2 * m + 2)
            = entry_literal ?B d (fst (es ! m)) m (snd (es ! m))"
    by blast
  have c: "createEnum h obj options
      = Inr (h', base + 2 * length es - (if es = [] then 0 else 1))"
    using r es lenB by (simp add: createEnum_def Object_entries_def obj Let_def)
  have "take (length h) (take (Suc (length ?B)) h') = h" unfolding tk by simp
  then have t: "take (length h) h' = h" by (simp add: min_def split: if_splits)
  have e: "\<forall>m<length es. h' ! (base + 2 * m + 2)
      = entry_literal h d (fst (es ! m)) m (snd (es ! m))"
  proof (intro allI impI)
    fix m assume m: "m < length es"
    then have "valid_value h (snd (es ! m))" using ves by simp
    then have "entry_literal ?B d (fst (es ! m)) m (snd (es ! m))
        = entry_literal h d (fst (es ! m)) m (snd (es ! m))"
      using entry_literal_append [OF vd, of _ "[[]]"] by simp
    then show "h' ! (base + 2 * m + 2) = entry_literal h d (fst (es ! m)) m (snd (es ! m))"
      using en m lenB by simp
  qed
  show ?thesis using c t len tb e lenB by simp
qed

section \<open>Keys of a primitive string\<close>

lemma digit_value_nth: "m < 10 \<Longrightarrow> digit_value (''0123456789'' ! m) = m"
proof -
  assume "m < 10"
  then have "m \<in> {0, 1, 2, 3, 4, 5, 6, 7, 8, 9}" by auto
  then show ?thesis by (auto simp: digit_value_def)
qed

lemma decimal_value_snoc:
  "decimal_value (s @ [c]) = 10 * decimal_value s + int (digit_value c)"
  by (simp add: decimal_value_def)

lemma decimal_value_decimal: "decimal_value (decimal n) = int n"
proof (induction n rule: decimal.induct)
  case (1 n)
  show ?case
  proof (cases "n < 10")
    case True
    then show ?thesis
      using digit_value_nth [of n] by (subst decimal.simps) (simp add: decimal_value_def)
  next
    case False
    then have "decimal_value (decimal (n div 10)) = int (n div 10)" by (rule 1)
    moreover have "digit_value (''0123456789'' ! (n mod 10)) = n mod 10"
      by (rule digit_value_nth) simp
    moreover have "10 * (n div 10) + n mod 10 = n" by simp
    then have "int (10 * (n div 10) + n mod 10) = int n" by (rule arg_cong)
    then have "10 * int (n div 10) + int (n mod 10) = int n"
      by (simp only: of_nat_add of_nat_mult of_nat_numeral)
    ultimately show ?thesis
      using False by (subst decimal.simps) (simp add: decimal_value_snoc del: nth_Cons_numeral)
  qed
qed

lemma inj_decimal: "inj decimal"
proof (rule injI)
  fix m n assume "decimal m = decimal n"
  then have "decimal_value (decimal m) = decimal_value (decimal n)" by simp
  then show "m = n" by (simp add: decimal_value_decimal)
qed

lemma distinct_string_props: "distinct (map fst (string_props s))"
proof -
  have "map fst (string_props s) = map decimal [0..<length s]"
    by (simp add: string_props_def comp_def)
  moreover have "inj_on decimal (set [0..<length s])"
    using inj_decimal by (rule inj_on_subset) simp
  ultimately show ?thesis by (simp add: distinct_map)
qed

lemma distinct_own_enumerable_any:
  "wf_store h \<Longrightarrow> distinct (map fst (own_enumerable h v))"
  by (cases v)
    (simp_all add: own_enumerable_def distinct_string_props distinct_own_property_order
      wf_store_object)

section \<open>The fields of an entry\<close>

lemma map_of_entry_literal:
  assumes "wf_store h"
  shows "map_of (entry_literal h d k i v) f =
     (case own_field h v f of
        Some x \<Rightarrow> Some x
      | None \<Rightarrow>
          if f = ''index'' then Some (JNum (int i))
          else if f = ''name'' then Some (JStr k)
          else own_field h d f)"
proof -
  let ?D = "own_enumerable h d" and ?V = "own_enumerable h v"
  have rv: "map_of (rev ?V) = map_of ?V" and rd: "map_of (rev ?D) = map_of ?D"
    using assms by (simp_all add: map_of_rev_distinct distinct_own_enumerable_any)
  have "map_of (spread h [] d) = map_of ?D"
    by (simp add: spread_def map_of_copy_data_properties rd)
  then have eq: "map_of (entry_literal h d k i v)
      = (map_of ?D)(''name'' \<mapsto> JStr k, ''index'' \<mapsto> JNum (int i)) ++ map_of ?V"
    by (simp only: entry_literal_def spread_def map_of_copy_data_properties map_of_define_prop rv)
  show ?thesis
  proof (cases "map_of ?V f")
    case None
    then have "map_of (entry_literal h d k i v) f
        = ((map_of ?D)(''name'' \<mapsto> JStr k, ''index'' \<mapsto> JNum (int i))) f"
      unfolding eq by (simp only: map_add_def option.case)
    then show ?thesis using None by (simp add: own_field_def)
  next
    case (Some x)
    then have "map_of (entry_literal h d k i v) f = Some x"
      unfolding eq by (simp only: map_add_def option.case)
    then show ?thesis using Some by (simp add: own_field_def)
  qed
qed

lemma distinct_entry_literal: "distinct (map fst (entry_literal h d k i v))"
  by (simp add: entry_literal_def spread_def distinct_copy_data_properties distinct_define_prop)

lemma map_of_indexed:
  assumes "distinct (map fst es)" and "i < length es"
  shows "map_of (map (\<lambda>m. (fst (es ! m), g m)) [0..<length es]) (fst (es ! i)) = Some (g i)"
proof -
  let ?f = "\<lambda>m. (fst (es ! m), g m)"
  have "map fst (map ?f [0..<length es]) = map fst es"
    by (rule nth_equalityI) simp_all
  then have "distinct (map fst (map ?f [0..<length es]))"
    using assms(1) by (simp only:)
  moreover have "i \<in> set [0..<length es]" using assms(2) by simp
  then have "?f i \<in> ?f ` set [0..<length es]" by (rule imageI)
  then have "(fst (es ! i), g i) \<in> set (map ?f [0..<length es])" by (simp only: set_map)
  ultimately show ?thesis by (simp only: map_of_eq_Some_iff)
qed

lemma createEnum_entry:
  assumes "valid_call h obj options"
    and "i < length (own_enumerable h obj)" and "own_enumerable h obj ! i = (k, v)"
  shows "output_ref (createEnum h obj options) k
      = Some ((if options = JUndefined then Suc (length h) else length h) + 2 * i + 2)"
    and "output_entry (createEnum h obj options) k
      = Some (entry_literal h (default_fields h options) k i v)"
proof -
  let ?es = "own_enumerable h obj"
  let ?base = "if options = JUndefined then Suc (length h) else length h"
  let ?out = "?base + 2 * length ?es - (if ?es = [] then 0 else 1)"
  from createEnum_result [OF assms(1)] obtain h' where
    c: "createEnum h obj options = Inr (h', ?out)"
    and len: "length h' = ?base + 1 + 2 * length ?es"
    and tb: "h' ! ?out = map (\<lambda>m. (fst (?es ! m), JRef (?base + 2 * m + 2))) [0..<length ?es]"
    and en: "\<forall>m<length ?es. h' ! (?base + 2 * m + 2)
            = entry_literal h (default_fields h options) (fst (?es ! m)) m (snd (?es ! m))"
    by blast
  have wf: "wf_store h" and obj: "\<exists>a. obj = JRef a"
    using assms(1) by (auto simp: valid_call_def split: jsval.splits)
  have dist: "distinct (map fst ?es)" using wf by (rule distinct_own_enumerable_any)
  have "?out < length h'" using len assms(2) by (cases ?es) simp_all
  then have "object_at h' ?out = h' ! ?out" by (simp add: object_at_def)
  then have "map_of (object_at h' ?out) k = Some (JRef (?base + 2 * i + 2))"
    using map_of_indexed [OF dist assms(2), of "\<lambda>m. JRef (?base + 2 * m + 2)"] tb assms(3)
    by simp
  then show r: "output_ref (createEnum h obj options) k = Some (?base + 2 * i + 2)"
    by (simp add: output_ref_def c)
  have "?base + 2 * i + 2 < length h'" using len assms(2) by simp
  then have "object_at h' (?base + 2 * i + 2) = h' ! (?base + 2 * i + 2)"
    by (simp add: object_at_def)
  then show "output_entry (createEnum h obj options) k
      = Some (entry_literal h (default_fields h options) k i v)"
    using r en assms(2,3) c by (simp add: output_entry_def)
qed

lemma createEnum_field:
  assumes "valid_call h obj options"
    and "i < length (own_enumerable h obj)" and "own_enumerable h obj ! i = (k, v)"
  shows "output_field (createEnum h obj options) k f =
     (case own_field h v f of
        Some x \<Rightarrow> Some x
      | None \<Rightarrow>
          if f = ''index'' then Some (JNum (int i))
          else if f = ''name'' then Some (JStr k)
          else own_field h (default_fields h options) f)"
proof -
  have "wf_store h" using assms(1) by (simp add: valid_call_def)
  then show ?thesis
    by (simp add: output_field_def createEnum_entry(2) [OF assms] map_of_entry_literal)
qed

section \<open>Evaluating concrete calls\<close>

lemmas eval_defs = createEnum_def Object_entries_def own_enumerable_def object_at_def
  own_property_order_def is_array_index_def decimal_value_def digit_value_def
  get_defaultFields_def reducer_def entry_literal_def spread_def copy_data_properties_def
  output_field_def output_entry_def output_ref_def output_keys_def own_field_def
  valid_call_def wf_store_def valid_value_def default_fields_def
  permissions_store_def override_store_def empty_specs_store_def colours_store_def
  colours_store'_def defaults_store_def mixed_keys_store_def

text \<open>The examples of the documentation, and the calls that throw.\<close>

lemma createEnum_colours:
  "output_entry (createEnum colours_store (JRef 0) JUndefined) ''RED''
     = Some [(''name'', JStr ''RED''), (''index'', JNum 0), (''hex'', JStr ''#F00'')]"
  "output_entry (createEnum colours_store (JRef 0) JUndefined) ''GREEN''
     = Some [(''name'', JStr ''GREEN''), (''index'', JNum 1), (''hex'', JStr ''#0F0'')]"
  "output_keys (createEnum colours_store (JRef 0) JUndefined) = Some [''RED'', ''GREEN'']"
  by (simp_all add: eval_defs)

lemma createEnum_permissions:
  "output_field (createEnum permissions_store (JRef 0) (JRef 3)) ''VIEWER'' ''canEdit''
     = Some (JBool False)"
  "output_field (createEnum permissions_store (JRef 0) (JRef 3)) ''EDITOR'' ''canEdit''
     = Some (JBool True)"
  by (simp_all add: eval_defs)

lemma createEnum_throws:
  "createEnum h JUndefined options = Inl TypeError"
  "createEnum h JNull options = Inl TypeError"
  "createEnum colours_store (JRef 0) JNull = Inl TypeError"
  by (simp_all add: eval_defs)

lemma createEnum_empty_null_options: "createEnum [[]] (JRef 0) JNull = Inr ([[], []], 1)"
  by (simp add: eval_defs)

section \<open>Computed name and index\<close>

lemma own_enumerable_insertion_order:
  "\<forall>p\<in>set (object_at h a). \<not> is_array_index (fst p) \<Longrightarrow>
   own_enumerable h (JRef a) = object_at h a"
  by (simp add: own_enumerable_def own_property_order_no_index)

lemma keys_own_enumerable: "fst ` set (own_enumerable h (JRef a)) = fst ` set (object_at h a)"
  by (simp add: own_enumerable_def set_own_property_order)

text \<open>
  Claim C1, as the code has it. Let \<open>k\<^sub>0, \<dots>, k\<^sub>n\<^sub>-\<^sub>1\<close> be the keys of the input mapping in
  the order of \<^verbatim>\<open>Object.entries\<close>: the keys that are array indices first, in ascending
  numeric order, then the other keys in insertion order (so plain insertion order when
  no key is an array index). For every position \<open>i\<close> whose spec defines neither \<^verbatim>\<open>name\<close>
  nor \<^verbatim>\<open>index\<close>, the call returns and \<^verbatim>\<open>output[k\<^sub>i].name\<close> is \<open>k\<^sub>i\<close> and
  \<^verbatim>\<open>output[k\<^sub>i].index\<close> is \<open>i\<close>: indices are 0-based, contiguous and follow the
  iteration order.
\<close>

theorem createEnum_name_index:
  assumes "valid_call h obj options"
    and "i < length (own_enumerable h obj)" and "own_enumerable h obj ! i = (k, v)"
    and "own_field h v ''name'' = None" and "own_field h v ''index'' = None"
  shows "output_field (createEnum h obj options) k ''name'' = Some (JStr k)
    \<and> output_field (createEnum h obj options) k ''index'' = Some (JNum (int i))"
  using createEnum_field [OF assms(1-3)] assms(4,5) by simp

theorem createEnum_name_index_witness:
  "valid_call colours_store (JRef 0) JUndefined
   \<and> own_enumerable colours_store (JRef 0) ! 1 = (''GREEN'', JRef 2)
   \<and> own_field colours_store (JRef 2) ''name'' = None
   \<and> own_field colours_store (JRef 2) ''index'' = None
   \<and> output_field (createEnum colours_store (JRef 0) JUndefined) ''GREEN'' ''name''
       = Some (JStr ''GREEN'')
   \<and> output_field (createEnum colours_store (JRef 0) JUndefined) ''GREEN'' ''index''
       = Some (JNum 1)"
proof -
  have 1: "valid_call colours_store (JRef 0) JUndefined" by (simp add: eval_defs)
  have 2: "1 < length (own_enumerable colours_store (JRef 0))" by (simp add: eval_defs)
  have 3: "own_enumerable colours_store (JRef 0) ! 1 = (''GREEN'', JRef 2)"
    by (simp add: eval_defs)
  have 4: "own_field colours_store (JRef 2) ''name'' = None" by (simp add: eval_defs)
  have 5: "own_field colours_store (JRef 2) ''index'' = None" by (simp add: eval_defs)
  show ?thesis using createEnum_name_index [OF 1 2 3 4 5] 1 3 4 5 by simp
qed

text \<open>
  Claim C1 as stated counts positions in insertion order. In \<^verbatim>\<open>{b: {}, 1: {}}\<close> the key
  \<^verbatim>\<open>b\<close> is inserted first and its spec defines neither field, but \<^verbatim>\<open>Object.entries\<close>
  visits \<^verbatim>\<open>1\<close> first, so \<^verbatim>\<open>output.b.index\<close> is 1, not 0.
\<close>

theorem createEnum_insertion_order_counterexample:
  "valid_call [[(''b'', JRef 1), (''1'', JRef 2)], [], []] (JRef 0) JUndefined
   \<and> object_at [[(''b'', JRef 1), (''1'', JRef 2)], [], []] 0 ! 0 = (''b'', JRef 1)
   \<and> own_field [[(''b'', JRef 1), (''1'', JRef 2)], [], []] (JRef 1) ''name'' = None
   \<and> own_field [[(''b'', JRef 1), (''1'', JRef 2)], [], []] (JRef 1) ''index'' = None
   \<and> output_field (createEnum [[(''b'', JRef 1), (''1'', JRef 2)], [], []] (JRef 0) JUndefined)
        ''b'' ''index'' = Some (JNum 1)
   \<and> output_field (createEnum [[(''b'', JRef 1), (''1'', JRef 2)], [], []] (JRef 0) JUndefined)
        ''b'' ''index'' \<noteq> Some (JNum 0)"
  by (simp add: eval_defs)

section \<open>Default fields\<close>

text \<open>
  Claim C2, as the code has it. For every key \<open>k\<close> and every field \<open>f\<close> that
  \<^verbatim>\<open>defaultFields\<close> defines: when the spec of \<open>k\<close> does not define \<open>f\<close> and \<open>f\<close> is neither
  \<^verbatim>\<open>name\<close> nor \<^verbatim>\<open>index\<close>, then \<^verbatim>\<open>output[k][f]\<close> is the default value; when the spec of
  \<open>k\<close> defines \<open>f\<close> too, then \<^verbatim>\<open>output[k][f]\<close> is the value of the spec.
\<close>

theorem createEnum_default_precedence:
  assumes "valid_call h obj options"
    and "i < length (own_enumerable h obj)" and "own_enumerable h obj ! i = (k, v)"
    and "own_field h (default_fields h options) f = Some x"
  shows "(own_field h v f = None \<and> f \<noteq> ''name'' \<and> f \<noteq> ''index''
      \<longrightarrow> output_field (createEnum h obj options) k f = Some x)
    \<and> (\<forall>y. own_field h v f = Some y
      \<longrightarrow> output_field (createEnum h obj options) k f = Some y)"
  using createEnum_field [OF assms(1-3), of f] assms(4) by simp

theorem createEnum_default_precedence_witness:
  "valid_call permissions_store (JRef 0) (JRef 3)
   \<and> own_enumerable permissions_store (JRef 0) ! 0 = (''VIEWER'', JRef 1)
   \<and> own_field permissions_store (default_fields permissions_store (JRef 3)) ''canEdit''
       = Some (JBool False)
   \<and> own_field permissions_store (JRef 1) ''canEdit'' = None
   \<and> output_field (createEnum permissions_store (JRef 0) (JRef 3)) ''VIEWER'' ''canEdit''
       = Some (JBool False)"
proof -
  have 1: "valid_call permissions_store (JRef 0) (JRef 3)" by (simp add: eval_defs)
  have 2: "0 < length (own_enumerable permissions_store (JRef 0))" by (simp add: eval_defs)
  have 3: "own_enumerable permissions_store (JRef 0) ! 0 = (''VIEWER'', JRef 1)"
    by (simp add: eval_defs)
  have 4: "own_field permissions_store (default_fields permissions_store (JRef 3)) ''canEdit''
      = Some (JBool False)"
    by (simp add: eval_defs)
  have 5: "own_field permissions_store (JRef 1) ''canEdit'' = None" by (simp add: eval_defs)
  show ?thesis using createEnum_default_precedence [OF 1 2 3 4] 1 3 4 5 by simp
qed

text \<open>
  Claim C2 as stated covers every field. With \<^verbatim>\<open>defaultFields = {name: "X"}\<close> and the
  mapping \<^verbatim>\<open>{A: {}}\<close>, the field \<^verbatim>\<open>name\<close> is in the defaults and not in the spec of
  \<^verbatim>\<open>A\<close>, yet \<^verbatim>\<open>output.A.name\<close> is the key \<^verbatim>\<open>"A"\<close>, not the default.
\<close>

theorem createEnum_default_name_counterexample:
  "valid_call [[(''A'', JRef 1)], [], [(''defaultFields'', JRef 3)], [(''name'', JStr ''X'')]]
     (JRef 0) (JRef 2)
   \<and> own_field [[(''A'', JRef 1)], [], [(''defaultFields'', JRef 3)], [(''name'', JStr ''X'')]]
        (JRef 3) ''name'' = Some (JStr ''X'')
   \<and> own_field [[(''A'', JRef 1)], [], [(''defaultFields'', JRef 3)], [(''name'', JStr ''X'')]]
        (JRef 1) ''name'' = None
   \<and> output_field
        (createEnum [[(''A'', JRef 1)], [], [(''defaultFields'', JRef 3)], [(''name'', JStr ''X'')]]
           (JRef 0) (JRef 2))
        ''A'' ''name'' = Some (JStr ''A'')
   \<and> output_field
        (createEnum [[(''A'', JRef 1)], [], [(''defaultFields'', JRef 3)], [(''name'', JStr ''X'')]]
           (JRef 0) (JRef 2))
        ''A'' ''name'' \<noteq> Some (JStr ''X'')"
  by (simp add: eval_defs)

section \<open>Keys of the result\<close>

text \<open>
  Claim C3. For every input mapping, the empty one too, the call returns a table whose
  keys in iteration order are the keys of the input in iteration order; from an empty
  mapping it returns an empty object.
\<close>

theorem createEnum_keys:
  assumes "valid_call h obj options"
  shows "output_keys (createEnum h obj options) = Some (map fst (own_enumerable h obj))
    \<and> (own_enumerable h obj = []
      \<longrightarrow> (\<exists>h' out. createEnum h obj options = Inr (h', out) \<and> object_at h' out = []))"
proof -
  let ?es = "own_enumerable h obj"
  let ?base = "if options = JUndefined then Suc (length h) else length h"
  let ?out = "?base + 2 * length ?es - (if ?es = [] then 0 else 1)"
  let ?tb = "map (\<lambda>m. (fst (?es ! m), JRef (?base + 2 * m + 2))) [0..<length ?es]"
  from createEnum_result [OF assms] obtain h' where
    c: "createEnum h obj options = Inr (h', ?out)"
    and len: "length h' = ?base + 1 + 2 * length ?es"
    and tb: "h' ! ?out = ?tb"
    by blast
  obtain a where obj: "obj = JRef a"
    using assms by (auto simp: valid_call_def split: jsval.splits)
  have keys: "map fst ?tb = map fst ?es" by (rule nth_equalityI) simp_all
  have "key_ordered (map fst ?es)"
    by (simp add: obj own_enumerable_def key_ordered_own_property_order)
  then have ko: "key_ordered (map fst ?tb)" by (simp only: keys)
  have "?out < length h'" using len by (cases ?es) simp_all
  then have at: "object_at h' ?out = ?tb" using tb by (simp add: object_at_def)
  then have "own_enumerable h' (JRef ?out) = ?tb"
    using ko by (simp add: own_enumerable_def own_property_order_id)
  then have "output_keys (createEnum h obj options) = Some (map fst ?es)"
    using keys by (simp add: output_keys_def c)
  moreover have "?es = [] \<longrightarrow> object_at h' ?out = []"
  proof
    assume "?es = []"
    then have "?tb = []" by simp
    then show "object_at h' ?out = []" using at by (simp only:)
  qed
  ultimately show ?thesis using c by blast
qed

theorem createEnum_keys_witness:
  "valid_call mixed_keys_store (JRef 0) JUndefined
   \<and> map fst (object_at mixed_keys_store 0) = [''b'', ''10'', ''9'']
   \<and> map fst (own_enumerable mixed_keys_store (JRef 0)) = [''9'', ''10'', ''b'']
   \<and> output_keys (createEnum mixed_keys_store (JRef 0) JUndefined) = Some [''9'', ''10'', ''b'']
   \<and> valid_call colours_store (JRef 0) (JRef 3)
   \<and> map fst (own_enumerable colours_store (JRef 0)) = [''RED'', ''GREEN'']
   \<and> output_keys (createEnum colours_store (JRef 0) (JRef 3)) = Some [''RED'', ''GREEN'']
   \<and> valid_call [[]] (JRef 0) JUndefined
   \<and> own_enumerable [[]] (JRef 0) = []
   \<and> output_keys (createEnum [[]] (JRef 0) JUndefined) = Some []
   \<and> (\<exists>h' out. createEnum [[]] (JRef 0) JUndefined = Inr (h', out) \<and> object_at h' out = [])"
proof -
  have 1: "valid_call mixed_keys_store (JRef 0) JUndefined" by (simp add: eval_defs)
  have 2: "map fst (object_at mixed_keys_store 0) = [''b'', ''10'', ''9'']"
    by (simp add: eval_defs)
  have 3: "map fst (own_enumerable mixed_keys_store (JRef 0)) = [''9'', ''10'', ''b'']"
    by (simp add: eval_defs)
  have 4: "output_keys (createEnum mixed_keys_store (JRef 0) JUndefined)
      = Some [''9'', ''10'', ''b'']"
    using createEnum_keys [OF 1] by (simp only: 3)
  have 5: "valid_call colours_store (JRef 0) (JRef 3)" by (simp add: eval_defs)
  have 6: "map fst (own_enumerable colours_store (JRef 0)) = [''RED'', ''GREEN'']"
    by (simp add: eval_defs)
  have 7: "output_keys (createEnum colours_store (JRef 0) (JRef 3)) = Some [''RED'', ''GREEN'']"
    using createEnum_keys [OF 5] by (simp only: 6)
  have 8: "valid_call [[]] (JRef 0) JUndefined" by (simp add: eval_defs)
  have 9: "own_enumerable [[]] (JRef 0) = []" by (simp add: eval_defs)
  have 10: "output_keys (createEnum [[]] (JRef 0) JUndefined) = Some []
      \<and> (\<exists>h' out. createEnum [[]] (JRef 0) JUndefined = Inr (h', out) \<and> object_at h' out = [])"
    using createEnum_keys [OF 8] 9 by simp
  from 1 2 3 4 5 6 7 8 9 10 show ?thesis by (simp only: simp_thms)
qed

section \<open>Precedence of the spec and of the computed fields\<close>

text \<open>
  Claim C4. When the spec of a key \<open>k\<close> has a field named \<^verbatim>\<open>name\<close> (or \<^verbatim>\<open>index\<close>), the
  output entry has the value of the spec under that field, not the key (or the
  position): the fields of the spec are merged last.
\<close>

theorem createEnum_spec_overrides:
  assumes "valid_call h obj options"
    and "i < length (own_enumerable h obj)" and "own_enumerable h obj ! i = (k, v)"
  shows "(\<forall>x. own_field h v ''name'' = Some x
      \<longrightarrow> output_field (createEnum h obj options) k ''name'' = Some x)
    \<and> (\<forall>x. own_field h v ''index'' = Some x
      \<longrightarrow> output_field (createEnum h obj options) k ''index'' = Some x)"
  by (simp add: createEnum_field [OF assms])

theorem createEnum_spec_overrides_witness:
  "valid_call override_store (JRef 0) (JRef 3)
   \<and> own_enumerable override_store (JRef 0) ! 0 = (''A'', JRef 1)
   \<and> own_field override_store (JRef 1) ''name'' = Some (JStr ''custom'')
   \<and> output_field (createEnum override_store (JRef 0) (JRef 3)) ''A'' ''name''
       = Some (JStr ''custom'')"
proof -
  have 1: "valid_call override_store (JRef 0) (JRef 3)" by (simp add: eval_defs)
  have 2: "0 < length (own_enumerable override_store (JRef 0))" by (simp add: eval_defs)
  have 3: "own_enumerable override_store (JRef 0) ! 0 = (''A'', JRef 1)"
    by (simp add: eval_defs)
  have 4: "own_field override_store (JRef 1) ''name'' = Some (JStr ''custom'')"
    by (simp add: eval_defs)
  show ?thesis using createEnum_spec_overrides [OF 1 2 3] 1 3 4 by simp
qed

text \<open>
  Claim C5. When \<^verbatim>\<open>defaultFields\<close> itself has a field \<^verbatim>\<open>name\<close> or \<^verbatim>\<open>index\<close>, an entry
  whose spec does not define that field still has the key as its \<^verbatim>\<open>name\<close> and its
  position as its \<^verbatim>\<open>index\<close>, and a spec that defines the field still wins: the computed
  fields come above the defaults and below the spec.
\<close>

theorem createEnum_computed_above_defaults:
  assumes "valid_call h obj options"
    and "i < length (own_enumerable h obj)" and "own_enumerable h obj ! i = (k, v)"
    and "own_field h (default_fields h options) ''name'' \<noteq> None
      \<or> own_field h (default_fields h options) ''index'' \<noteq> None"
  shows "(own_field h v ''name'' = None
      \<longrightarrow> output_field (createEnum h obj options) k ''name'' = Some (JStr k))
    \<and> (own_field h v ''index'' = None
      \<longrightarrow> output_field (createEnum h obj options) k ''index'' = Some (JNum (int i)))
    \<and> (\<forall>x. own_field h v ''name'' = Some x
      \<longrightarrow> output_field (createEnum h obj options) k ''name'' = Some x)
    \<and> (\<forall>x. own_field h v ''index'' = Some x
      \<longrightarrow> output_field (createEnum h obj options) k ''index'' = Some x)"
  by (simp add: createEnum_field [OF assms(1-3)])

theorem createEnum_computed_above_defaults_witness:
  "valid_call override_store (JRef 0) (JRef 3)
   \<and> own_enumerable override_store (JRef 0) ! 1 = (''B'', JRef 2)
   \<and> own_field override_store (default_fields override_store (JRef 3)) ''name''
       = Some (JStr ''dflt'')
   \<and> own_field override_store (JRef 2) ''name'' = None
   \<and> own_field override_store (JRef 2) ''index'' = Some (JNum 7)
   \<and> output_field (createEnum override_store (JRef 0) (JRef 3)) ''B'' ''name''
       = Some (JStr ''B'')
   \<and> output_field (createEnum override_store (JRef 0) (JRef 3)) ''B'' ''index''
       = Some (JNum 7)"
proof -
  have 1: "valid_call override_store (JRef 0) (JRef 3)" by (simp add: eval_defs)
  have 2: "1 < length (own_enumerable override_store (JRef 0))" by (simp add: eval_defs)
  have 3: "own_enumerable override_store (JRef 0) ! 1 = (''B'', JRef 2)"
    by (simp add: eval_defs)
  have 4: "own_field override_store (default_fields override_store (JRef 3)) ''name''
      = Some (JStr ''dflt'')"
    by (simp add: eval_defs)
  have 5: "own_field override_store (JRef 2) ''name'' = None" by (simp add: eval_defs)
  have 6: "own_field override_store (JRef 2) ''index'' = Some (JNum 7)"
    by (simp add: eval_defs)
  have 7: "own_field override_store (default_fields override_store (JRef 3)) ''name'' \<noteq> None
      \<or> own_field override_store (default_fields override_store (JRef 3)) ''index'' \<noteq> None"
    using 4 by simp
  show ?thesis using createEnum_computed_above_defaults [OF 1 2 3 7] 1 3 4 5 6 by simp
qed

section \<open>Entries with an empty spec\<close>

text \<open>
  Claim C6. For a key \<open>k\<close> at position \<open>i\<close> whose spec is empty, the output entry is the
  \<^verbatim>\<open>defaultFields\<close> bag overlaid with \<^verbatim>\<open>{name: k, index: i}\<close> and nothing else: its keys
  are pairwise different and, when the options object of the store has the object \<open>b\<close>
  under \<^verbatim>\<open>defaultFields\<close>, the entry is, as a map, the properties of \<open>b\<close> updated at
  \<^verbatim>\<open>name\<close> and \<^verbatim>\<open>index\<close>. With no options, or an options object without
  \<^verbatim>\<open>defaultFields\<close>, the entry is exactly \<^verbatim>\<open>{name: k, index: i}\<close>.
\<close>

theorem createEnum_empty_spec:
  assumes "valid_call h obj options"
    and "i < length (own_enumerable h obj)" and "own_enumerable h obj ! i = (k, v)"
    and "own_enumerable h v = []"
  shows "\<exists>ps. output_entry (createEnum h obj options) k = Some ps
    \<and> distinct (map fst ps)
    \<and> (\<forall>a b. options = JRef a \<and> map_of (object_at h a) ''defaultFields'' = Some (JRef b)
      \<longrightarrow> map_of ps = (map_of (object_at h b))
            (''name'' \<mapsto> JStr k, ''index'' \<mapsto> JNum (int i)))
    \<and> (options = JUndefined
        \<or> (\<exists>a. options = JRef a \<and> map_of (object_at h a) ''defaultFields'' = None)
      \<longrightarrow> ps = [(''name'', JStr k), (''index'', JNum (int i))])"
proof -
  let ?d = "default_fields h options"
  let ?ps = "entry_literal h ?d k i v"
  have wf: "wf_store h" using assms(1) by (simp add: valid_call_def)
  have none: "\<And>f. own_field h v f = None" by (simp add: own_field_def assms(4))
  have m: "map_of ?ps = (own_field h ?d)(''name'' \<mapsto> JStr k, ''index'' \<mapsto> JNum (int i))"
  proof
    fix f
    show "map_of ?ps f = ((own_field h ?d)(''name'' \<mapsto> JStr k, ''index'' \<mapsto> JNum (int i))) f"
      by (simp add: map_of_entry_literal [OF wf] none)
  qed
  have e: "own_enumerable h ?d = [] \<longrightarrow> ?ps = [(''name'', JStr k), (''index'', JNum (int i))]"
    by (simp add: entry_literal_def spread_def copy_data_properties_def assms(4))
  have 1: "\<forall>a b. options = JRef a \<and> map_of (object_at h a) ''defaultFields'' = Some (JRef b)
      \<longrightarrow> map_of ?ps = (map_of (object_at h b))
            (''name'' \<mapsto> JStr k, ''index'' \<mapsto> JNum (int i))"
  proof (intro allI impI)
    fix a b
    assume o: "options = JRef a \<and> map_of (object_at h a) ''defaultFields'' = Some (JRef b)"
    then have "?d = JRef b" by (simp add: default_fields_def get_defaultFields_def)
    moreover have "map_of (own_enumerable h (JRef b)) = map_of (object_at h b)"
      using wf by (simp add: own_enumerable_def map_of_own_property_order wf_store_object)
    then have "own_field h (JRef b) = map_of (object_at h b)"
      by (simp add: own_field_def fun_eq_iff)
    ultimately show "map_of ?ps = (map_of (object_at h b))
            (''name'' \<mapsto> JStr k, ''index'' \<mapsto> JNum (int i))"
      using m by simp
  qed
  have 2: "options = JUndefined
        \<or> (\<exists>a. options = JRef a \<and> map_of (object_at h a) ''defaultFields'' = None)
      \<longrightarrow> ?ps = [(''name'', JStr k), (''index'', JNum (int i))]"
  proof
    assume "options = JUndefined
        \<or> (\<exists>a. options = JRef a \<and> map_of (object_at h a) ''defaultFields'' = None)"
    then have "?d = JUndefined"
      by (auto simp: default_fields_def get_defaultFields_def)
    then have "own_enumerable h ?d = []" by (simp add: own_enumerable_def)
    then show "?ps = [(''name'', JStr k), (''index'', JNum (int i))]" using e by simp
  qed
  have 3: "distinct (map fst ?ps)" by (rule distinct_entry_literal)
  have 4: "output_entry (createEnum h obj options) k = Some ?ps"
    by (rule createEnum_entry(2) [OF assms(1-3)])
  from 1 2 3 4 show ?thesis by blast
qed

theorem createEnum_empty_spec_witness:
  "valid_call defaults_store (JRef 0) (JRef 3)
   \<and> own_enumerable defaults_store (JRef 0) ! 1 = (''B'', JRef 2)
   \<and> object_at defaults_store 2 = []
   \<and> map_of (object_at defaults_store 3) ''defaultFields'' = Some (JRef 4)
   \<and> object_at defaults_store 4 = [(''canEdit'', JBool False), (''name'', JStr ''dflt'')]
   \<and> (\<exists>ps. output_entry (createEnum defaults_store (JRef 0) (JRef 3)) ''B'' = Some ps
        \<and> distinct (map fst ps)
        \<and> map_of ps = (map_of (object_at defaults_store 4))
             (''name'' \<mapsto> JStr ''B'', ''index'' \<mapsto> JNum 1))
   \<and> output_entry (createEnum defaults_store (JRef 0) (JRef 3)) ''B''
       = Some [(''canEdit'', JBool False), (''name'', JStr ''B''), (''index'', JNum 1)]
   \<and> valid_call empty_specs_store (JRef 0) JUndefined
   \<and> own_enumerable empty_specs_store (JRef 0) ! 1 = (''B'', JRef 2)
   \<and> object_at empty_specs_store 2 = []
   \<and> output_entry (createEnum empty_specs_store (JRef 0) JUndefined) ''B''
       = Some [(''name'', JStr ''B''), (''index'', JNum 1)]"
proof -
  have 1: "valid_call defaults_store (JRef 0) (JRef 3)" by (simp add: eval_defs)
  have 2: "1 < length (own_enumerable defaults_store (JRef 0))" by (simp add: eval_defs)
  have 3: "own_enumerable defaults_store (JRef 0) ! 1 = (''B'', JRef 2)"
    by (simp add: eval_defs)
  have 4: "own_enumerable defaults_store (JRef 2) = []" by (simp add: eval_defs)
  have 5: "object_at defaults_store 2 = []" by (simp add: eval_defs)
  have 6: "map_of (object_at defaults_store 3) ''defaultFields'' = Some (JRef 4)"
    by (simp add: eval_defs)
  have 7: "object_at defaults_store 4 = [(''canEdit'', JBool False), (''name'', JStr ''dflt'')]"
    by (simp add: eval_defs)
  from createEnum_empty_spec [OF 1 2 3 4] obtain ps where
    ps: "output_entry (createEnum defaults_store (JRef 0) (JRef 3)) ''B'' = Some ps"
      "distinct (map fst ps)"
    and "\<forall>a b. JRef 3 = JRef a \<and> map_of (object_at defaults_store a) ''defaultFields''
          = Some (JRef b)
      \<longrightarrow> map_of ps = (map_of (object_at defaults_store b))
            (''name'' \<mapsto> JStr ''B'', ''index'' \<mapsto> JNum (int 1))"
    by blast
  then have "map_of ps = (map_of (object_at defaults_store 4))
      (''name'' \<mapsto> JStr ''B'', ''index'' \<mapsto> JNum 1)"
    using 6 by simp
  then have 8: "\<exists>ps. output_entry (createEnum defaults_store (JRef 0) (JRef 3)) ''B'' = Some ps
        \<and> distinct (map fst ps)
        \<and> map_of ps = (map_of (object_at defaults_store 4))
             (''name'' \<mapsto> JStr ''B'', ''index'' \<mapsto> JNum 1)"
    using ps by blast
  have 9: "output_entry (createEnum defaults_store (JRef 0) (JRef 3)) ''B''
       = Some [(''canEdit'', JBool False), (''name'', JStr ''B''), (''index'', JNum 1)]"
    by (simp add: eval_defs)
  have 10: "valid_call empty_specs_store (JRef 0) JUndefined" by (simp add: eval_defs)
  have 11: "1 < length (own_enumerable empty_specs_store (JRef 0))" by (simp add: eval_defs)
  have 12: "own_enumerable empty_specs_store (JRef 0) ! 1 = (''B'', JRef 2)"
    by (simp add: eval_defs)
  have 13: "own_enumerable empty_specs_store (JRef 2) = []" by (simp add: eval_defs)
  have 14: "object_at empty_specs_store 2 = []" by (simp add: eval_defs)
  have 15: "output_entry (createEnum empty_specs_store (JRef 0) JUndefined) ''B''
       = Some [(''name'', JStr ''B''), (''index'', JNum 1)]"
    using createEnum_empty_spec [OF 10 11 12 13] by auto
  from 1 3 5 6 7 8 9 10 12 14 15 show ?thesis by (simp only: simp_thms)
qed

section \<open>Fields bound to undefined\<close>

text \<open>
  Claim C10. Precedence goes by the presence of a key, not by its value: when the spec
  of \<open>k\<close> binds \<open>f\<close> to \<^verbatim>\<open>undefined\<close> and \<^verbatim>\<open>defaultFields\<close> binds \<open>f\<close> to a defined value,
  then \<open>f\<close> is a key of the output entry and its value is \<^verbatim>\<open>undefined\<close>, not the default.
\<close>

theorem createEnum_undefined_shadows_default:
  assumes "valid_call h obj options"
    and "i < length (own_enumerable h obj)" and "own_enumerable h obj ! i = (k, v)"
    and "own_field h v f = Some JUndefined"
    and "own_field h (default_fields h options) f = Some x" and "x \<noteq> JUndefined"
  shows "output_field (createEnum h obj options) k f = Some JUndefined
    \<and> output_field (createEnum h obj options) k f \<noteq> Some x"
  using createEnum_field [OF assms(1-3), of f] assms(4,6) by simp

theorem createEnum_undefined_shadows_default_witness:
  "valid_call override_store (JRef 0) (JRef 3)
   \<and> own_enumerable override_store (JRef 0) ! 0 = (''A'', JRef 1)
   \<and> own_field override_store (JRef 1) ''f'' = Some JUndefined
   \<and> own_field override_store (default_fields override_store (JRef 3)) ''f'' = Some (JNum 1)
   \<and> output_field (createEnum override_store (JRef 0) (JRef 3)) ''A'' ''f'' = Some JUndefined"
proof -
  have 1: "valid_call override_store (JRef 0) (JRef 3)" by (simp add: eval_defs)
  have 2: "0 < length (own_enumerable override_store (JRef 0))" by (simp add: eval_defs)
  have 3: "own_enumerable override_store (JRef 0) ! 0 = (''A'', JRef 1)"
    by (simp add: eval_defs)
  have 4: "own_field override_store (JRef 1) ''f'' = Some JUndefined" by (simp add: eval_defs)
  have 5: "own_field override_store (default_fields override_store (JRef 3)) ''f''
      = Some (JNum 1)"
    by (simp add: eval_defs)
  have 6: "JNum 1 \<noteq> JUndefined" by simp
  show ?thesis using createEnum_undefined_shadows_default [OF 1 2 3 4 5 6] 1 3 4 5 by simp
qed

section \<open>Options\<close>

lemma reduce_reducer_options:
  assumes "valid_value B o1" and "valid_value B o2"
    and "get_defaultFields B o1 = get_defaultFields B o2"
  shows "reduce (reducer o1) (B @ ext) acc es i = reduce (reducer o2) (B @ ext) acc es i"
proof (induction es arbitrary: ext acc i)
  case Nil
  show ?case by simp
next
  case (Cons kv es)
  have g: "get_defaultFields (B @ ext) o1 = get_defaultFields (B @ ext) o2"
    using assms by (simp add: get_defaultFields_append)
  then have r: "reducer o1 (B @ ext) acc kv i = reducer o2 (B @ ext) acc kv i"
    by (simp add: reducer_def)
  show ?case
  proof (cases "get_defaultFields (B @ ext) o2")
    case (Inl e)
    then show ?thesis using g by (simp add: reducer_def)
  next
    case (Inr d)
    let ?t = "define_prop (spread (B @ ext) [] (JRef acc)) (fst kv) (JRef (Suc (length (B @ ext))))"
    let ?e = "entry_literal (B @ ext) d (fst kv) i (snd kv)"
    have "reducer o2 (B @ ext) acc kv i = Inr (B @ (ext @ [?t, ?e]), length (B @ ext))"
      using Inr by (simp add: reducer_def Let_def)
    then show ?thesis
      using r Cons.IH [of "ext @ [?t, ?e]" "length (B @ ext)" "Suc i"] by simp
  qed
qed

text \<open>
  Claim C9. Two options objects whose \<^verbatim>\<open>defaultFields\<close> members are equal give the same
  result on every input: of an options object only \<^verbatim>\<open>defaultFields\<close> is read, any other
  key is ignored.
\<close>

theorem createEnum_options_only_defaultFields:
  assumes "o1 < length h" and "o2 < length h"
    and "get_defaultFields h (JRef o1) = get_defaultFields h (JRef o2)"
  shows "createEnum h obj (JRef o1) = createEnum h obj (JRef o2)"
proof -
  have "valid_value h (JRef o1)" "valid_value h (JRef o2)"
    using assms(1,2) by (simp_all add: valid_value_def)
  then have "reduce (reducer (JRef o1)) (h @ [[]]) (length h) es 0
      = reduce (reducer (JRef o2)) (h @ [[]]) (length h) es 0" for es
    using assms(3) by (rule reduce_reducer_options)
  then show ?thesis by (simp add: createEnum_def split: sum.splits)
qed

theorem createEnum_options_only_defaultFields_witness:
  "(3::nat) < length override_store \<and> (5::nat) < length override_store
   \<and> get_defaultFields override_store (JRef 3) = Inr (JRef 4)
   \<and> get_defaultFields override_store (JRef 5) = Inr (JRef 4)
   \<and> map_of (object_at override_store 3) ''extra'' = Some (JBool True)
   \<and> map_of (object_at override_store 5) ''extra'' = None
   \<and> createEnum override_store (JRef 0) (JRef 3) = createEnum override_store (JRef 0) (JRef 5)"
proof -
  have 1: "3 < length override_store" by (simp add: eval_defs)
  have 2: "5 < length override_store" by (simp add: eval_defs)
  have 3: "get_defaultFields override_store (JRef 3) = Inr (JRef 4)" by (simp add: eval_defs)
  have 4: "get_defaultFields override_store (JRef 5) = Inr (JRef 4)" by (simp add: eval_defs)
  have 5: "map_of (object_at override_store 3) ''extra'' = Some (JBool True)"
    by (simp add: eval_defs)
  have 6: "map_of (object_at override_store 5) ''extra'' = None" by (simp add: eval_defs)
  have 7: "get_defaultFields override_store (JRef 3) = get_defaultFields override_store (JRef 5)"
    using 3 4 by simp
  show ?thesis
    using createEnum_options_only_defaultFields [OF 1 2 7, of "JRef 0"] 1 2 3 4 5 6 by simp
qed

section \<open>Fresh entries, shared values\<close>

text \<open>
  Claim C8. Every output entry is a freshly allocated object: its address is not an
  address of the input store, so it is neither the spec object nor the
  \<^verbatim>\<open>defaultFields\<close> object nor any other input object; entries of different keys have
  different addresses, and none is the returned table. The objects of the input store
  are unchanged, and each field value of the spec, and each default that the entry
  takes, is stored in the entry as it is: a nested object or array is the same
  reference, not a copy.
\<close>

theorem createEnum_fresh_entries:
  assumes "valid_call h obj options"
    and "i < length (own_enumerable h obj)" and "own_enumerable h obj ! i = (k, v)"
    and "j < length (own_enumerable h obj)" and "own_enumerable h obj ! j = (k', v')"
  shows "\<exists>h' out e e'.
      createEnum h obj options = Inr (h', out) \<and> take (length h) h' = h
      \<and> output_ref (createEnum h obj options) k = Some e
      \<and> output_ref (createEnum h obj options) k' = Some e'
      \<and> length h \<le> e \<and> e < length h' \<and> length h \<le> out \<and> out < length h' \<and> e \<noteq> out
      \<and> (i \<noteq> j \<longrightarrow> e \<noteq> e')
      \<and> v \<noteq> JRef e \<and> default_fields h options \<noteq> JRef e \<and> obj \<noteq> JRef e
      \<and> (\<forall>f x. own_field h v f = Some x
          \<longrightarrow> output_field (createEnum h obj options) k f = Some x)
      \<and> (\<forall>f x. own_field h (default_fields h options) f = Some x \<and> own_field h v f = None
            \<and> f \<noteq> ''name'' \<and> f \<noteq> ''index''
          \<longrightarrow> output_field (createEnum h obj options) k f = Some x)"
proof -
  define es where "es = own_enumerable h obj"
  define b where "b = (if options = JUndefined then Suc (length h) else length h)"
  define out where "out = b + 2 * length es - (if es = [] then 0 else 1)"
  from createEnum_result [OF assms(1)] obtain h' where
    c: "createEnum h obj options = Inr (h', out)"
    and tk: "take (length h) h' = h"
    and len: "length h' = b + 1 + 2 * length es"
    unfolding es_def b_def out_def by blast
  have wf: "wf_store h" and vobj: "valid_value h obj"
    using assms(1) by (auto simp: valid_call_def valid_value_def split: jsval.splits)
  have i: "i < length es" and j: "j < length es" using assms(2,4) by (simp_all add: es_def)
  have bl: "length h \<le> b" by (simp add: b_def)
  have out: "out = b + 2 * length es - 1" using i by (auto simp: out_def)
  have r: "output_ref (createEnum h obj options) k = Some (b + 2 * i + 2)"
    unfolding b_def by (rule createEnum_entry(1) [OF assms(1-3)])
  have r': "output_ref (createEnum h obj options) k' = Some (b + 2 * j + 2)"
    unfolding b_def by (rule createEnum_entry(1) [OF assms(1,4,5)])
  have 1: "length h \<le> b + 2 * i + 2" "b + 2 * i + 2 < length h'" "length h \<le> out"
    "out < length h'"
    using i bl len out by linarith+
  have 2: "b + 2 * i + 2 \<noteq> out" using i out by presburger
  have 3: "i \<noteq> j \<longrightarrow> b + 2 * i + 2 \<noteq> b + 2 * j + 2" by simp
  have "(k, v) \<in> set (own_enumerable h obj)" using assms(2,3) by (metis nth_mem)
  then have "valid_value h v" using valid_own_enumerable [OF wf] by fastforce
  then have 4: "v \<noteq> JRef (b + 2 * i + 2)" using 1(1) by (auto simp: valid_value_def)
  have "valid_value h (default_fields h options)" by (rule valid_default_fields [OF wf])
  then have 5: "default_fields h options \<noteq> JRef (b + 2 * i + 2)"
    using 1(1) by (auto simp: valid_value_def)
  have 6: "obj \<noteq> JRef (b + 2 * i + 2)" using vobj 1(1) by (auto simp: valid_value_def)
  have 7: "\<forall>f x. own_field h v f = Some x
      \<longrightarrow> output_field (createEnum h obj options) k f = Some x"
    by (simp add: createEnum_field [OF assms(1-3)])
  have 8: "\<forall>f x. own_field h (default_fields h options) f = Some x \<and> own_field h v f = None
        \<and> f \<noteq> ''name'' \<and> f \<noteq> ''index''
      \<longrightarrow> output_field (createEnum h obj options) k f = Some x"
    by (simp add: createEnum_field [OF assms(1-3)])
  from c tk r r' 1 2 3 4 5 6 7 8 show ?thesis by blast
qed

theorem createEnum_fresh_entries_witness:
  "valid_call override_store (JRef 0) (JRef 3)
   \<and> own_enumerable override_store (JRef 0) ! 1 = (''B'', JRef 2)
   \<and> own_enumerable override_store (JRef 0) ! 0 = (''A'', JRef 1)
   \<and> own_field override_store (JRef 2) ''tags'' = Some (JRef 6)
   \<and> output_ref (createEnum override_store (JRef 0) (JRef 3)) ''B'' = Some 11
   \<and> output_ref (createEnum override_store (JRef 0) (JRef 3)) ''A'' = Some 9
   \<and> length override_store = 7
   \<and> output_field (createEnum override_store (JRef 0) (JRef 3)) ''B'' ''tags'' = Some (JRef 6)
   \<and> (\<exists>h' out. createEnum override_store (JRef 0) (JRef 3) = Inr (h', out)
        \<and> take 7 h' = override_store)"
proof -
  have 1: "valid_call override_store (JRef 0) (JRef 3)" by (simp add: eval_defs)
  have 2: "1 < length (own_enumerable override_store (JRef 0))" by (simp add: eval_defs)
  have 3: "own_enumerable override_store (JRef 0) ! 1 = (''B'', JRef 2)"
    by (simp add: eval_defs)
  have 4: "0 < length (own_enumerable override_store (JRef 0))" by (simp add: eval_defs)
  have 5: "own_enumerable override_store (JRef 0) ! 0 = (''A'', JRef 1)"
    by (simp add: eval_defs)
  have 6: "own_field override_store (JRef 2) ''tags'' = Some (JRef 6)"
    by (simp add: eval_defs)
  have 7: "length override_store = 7" by (simp add: eval_defs)
  have 8: "output_ref (createEnum override_store (JRef 0) (JRef 3)) ''B'' = Some 11"
    by (simp add: eval_defs)
  have 9: "output_ref (createEnum override_store (JRef 0) (JRef 3)) ''A'' = Some 9"
    by (simp add: eval_defs)
  from createEnum_fresh_entries [OF 1 2 3 4 5] obtain h' out where
    "createEnum override_store (JRef 0) (JRef 3) = Inr (h', out)"
    "take (length override_store) h' = override_store"
    "\<forall>f x. own_field override_store (JRef 2) f = Some x
      \<longrightarrow> output_field (createEnum override_store (JRef 0) (JRef 3)) ''B'' f = Some x"
    by blast
  then show ?thesis using 1 3 5 6 7 8 9 by auto
qed

section \<open>Structural equality\<close>

lemma struct_eq_primitive: "\<forall>a. v \<noteq> JRef a \<Longrightarrow> struct_eq n h1 v h2 v"
  by (cases n; cases v) simp_all

lemma struct_eq_Suc_ref:
  "struct_eq (Suc n) h1 (JRef a) h2 (JRef b)
     = props_eq n h1 h2 (own_enumerable h1 (JRef a)) (own_enumerable h2 (JRef b))"
  by (simp add: props_eq_def)

lemma struct_eq_ref_cases:
  assumes "struct_eq n h1 x h2 y"
  obtains a b where "x = JRef a" and "y = JRef b"
  | "\<forall>a. x \<noteq> JRef a" and "y = x"
  using assms by (cases n; cases x; cases y) simp_all

lemma props_eq_refl_primitive:
  "\<forall>p\<in>set xs. \<forall>a. snd p \<noteq> JRef a \<Longrightarrow> props_eq n h1 h2 xs xs"
  unfolding props_eq_def by (induction xs) (simp_all add: struct_eq_primitive)

lemma struct_eq_own_enumerable:
  assumes "struct_eq (Suc n) h1 x h2 y"
  shows "props_eq n h1 h2 (own_enumerable h1 x) (own_enumerable h2 y)"
  using assms
proof (cases rule: struct_eq_ref_cases)
  case (1 a b)
  then show ?thesis using assms by (simp add: props_eq_def)
next
  case 2
  then have "own_enumerable h1 x = own_enumerable h2 x"
    by (cases x) (simp_all add: own_enumerable_def)
  moreover have "\<forall>p\<in>set (own_enumerable h2 x). \<forall>a. snd p \<noteq> JRef a"
    using 2 by (cases x) (auto simp: own_enumerable_def string_props_def)
  ultimately show ?thesis using 2 by (simp add: props_eq_refl_primitive)
qed

lemma props_eq_Nil: "props_eq n h1 h2 [] []"
  by (simp add: props_eq_def)

lemma props_eq_define_prop:
  assumes "props_eq n h1 h2 xs ys" and "struct_eq n h1 x h2 y"
  shows "props_eq n h1 h2 (define_prop xs k x) (define_prop ys k y)"
  using assms unfolding props_eq_def
  by (induction xs ys rule: list_all2_induct) (auto split: prod.splits)

lemma props_eq_copy_data_properties:
  assumes "props_eq n h1 h2 s1 s2" and "props_eq n h1 h2 t1 t2"
  shows "props_eq n h1 h2 (copy_data_properties t1 s1) (copy_data_properties t2 s2)"
proof -
  have "list_all2 (\<lambda>p q. fst p = fst q \<and> struct_eq n h1 (snd p) h2 (snd q)) s1 s2"
    using assms(1) by (simp add: props_eq_def)
  then show ?thesis using assms(2)
  proof (induction s1 s2 arbitrary: t1 t2 rule: list_all2_induct)
    case Nil
    then show ?case by (simp add: copy_data_properties_def)
  next
    case (Cons p s1 q s2)
    have "props_eq n h1 h2 (define_prop t1 (fst p) (snd p)) (define_prop t2 (fst q) (snd q))"
      using Cons.hyps(1) Cons.prems props_eq_define_prop [of n h1 h2 t1 t2 "snd p" "snd q" "fst p"]
      by simp
    then have "props_eq n h1 h2
        (copy_data_properties (define_prop t1 (fst p) (snd p)) s1)
        (copy_data_properties (define_prop t2 (fst q) (snd q)) s2)"
      by (rule Cons.IH)
    then show ?case by (simp add: copy_data_properties_def case_prod_beta)
  qed
qed

lemma list_all2_filter_keys:
  assumes "list_all2 R xs ys" and "\<And>p q. R p q \<Longrightarrow> fst p = fst q"
  shows "list_all2 R (filter (\<lambda>p. P (fst p)) xs) (filter (\<lambda>p. P (fst p)) ys)"
  using assms(1)
proof (induction xs ys rule: list_all2_induct)
  case Nil
  show ?case by simp
next
  case (Cons p xs q ys)
  then show ?case using assms(2) [of p q] by simp
qed

lemma list_all2_insort_keys:
  assumes "list_all2 R xs ys" and "R p q" and "\<And>p q. R p q \<Longrightarrow> fst p = fst q"
  shows "list_all2 R (insort_key (\<lambda>p. f (fst p)) p xs) (insort_key (\<lambda>p. f (fst p)) q ys)"
  using assms(1)
proof (induction xs ys rule: list_all2_induct)
  case Nil
  show ?case using assms(2) by simp
next
  case (Cons x xs y ys)
  then show ?case using assms(2) assms(3) [of p q] assms(3) [of x y] by simp
qed

lemma list_all2_sort_keys:
  assumes "list_all2 R xs ys" and "\<And>p q. R p q \<Longrightarrow> fst p = fst q"
  shows "list_all2 R (sort_key (\<lambda>p. f (fst p)) xs) (sort_key (\<lambda>p. f (fst p)) ys)"
  using assms(1)
proof (induction xs ys rule: list_all2_induct)
  case Nil
  show ?case by simp
next
  case (Cons x xs y ys)
  then show ?case using list_all2_insort_keys [OF Cons.IH Cons.hyps(1) assms(2)] by simp
qed

lemma props_eq_own_property_order:
  assumes "props_eq n h1 h2 xs ys"
  shows "props_eq n h1 h2 (own_property_order xs) (own_property_order ys)"
proof -
  let ?R = "\<lambda>p q. fst p = fst q \<and> struct_eq n h1 (snd p) h2 (snd q)"
  have R: "list_all2 ?R xs ys" using assms by (simp add: props_eq_def)
  have k: "\<And>p q. ?R p q \<Longrightarrow> fst p = fst q" by simp
  have "list_all2 ?R (filter (\<lambda>p. is_array_index (fst p)) xs)
      (filter (\<lambda>p. is_array_index (fst p)) ys)"
    using R k by (rule list_all2_filter_keys)
  then have "list_all2 ?R
      (sort_key (\<lambda>p. decimal_value (fst p)) (filter (\<lambda>p. is_array_index (fst p)) xs))
      (sort_key (\<lambda>p. decimal_value (fst p)) (filter (\<lambda>p. is_array_index (fst p)) ys))"
    using k by (rule list_all2_sort_keys)
  moreover have "list_all2 ?R (filter (\<lambda>p. \<not> is_array_index (fst p)) xs)
      (filter (\<lambda>p. \<not> is_array_index (fst p)) ys)"
    using R k by (rule list_all2_filter_keys [where P = "\<lambda>k. \<not> is_array_index k"])
  ultimately show ?thesis
    unfolding props_eq_def own_property_order_def by (rule list_all2_appendI)
qed

lemma props_eq_entry_literal:
  assumes "props_eq n h1 h2 (own_enumerable h1 d1) (own_enumerable h2 d2)"
    and "props_eq n h1 h2 (own_enumerable h1 v1) (own_enumerable h2 v2)"
  shows "props_eq n h1 h2 (entry_literal h1 d1 k i v1) (entry_literal h2 d2 k i v2)"
  unfolding entry_literal_def spread_def
  by (intro props_eq_copy_data_properties props_eq_define_prop assms props_eq_Nil
      struct_eq_primitive) simp_all

lemma props_eq_map_of:
  assumes "props_eq n h1 h2 xs ys"
  shows "rel_option (\<lambda>x y. struct_eq n h1 x h2 y) (map_of xs k) (map_of ys k)"
  using assms unfolding props_eq_def
  by (induction xs ys rule: list_all2_induct) (auto split: prod.splits)

lemma struct_eq_append:
  assumes "wf_store h1" and "wf_store h2"
  shows "valid_value h1 x \<Longrightarrow> valid_value h2 y \<Longrightarrow>
    struct_eq n (h1 @ e1) x (h2 @ e2) y = struct_eq n h1 x h2 y"
proof (induction n arbitrary: x y)
  case 0
  show ?case by simp
next
  case (Suc n)
  show ?case
  proof (cases "(\<exists>a. x = JRef a) \<and> (\<exists>b. y = JRef b)")
    case True
    then obtain a b where x: "x = JRef a" and y: "y = JRef b" by blast
    let ?xs = "own_enumerable h1 x" and ?ys = "own_enumerable h2 y"
    have xs: "own_enumerable (h1 @ e1) x = ?xs" using Suc.prems(1) by (rule own_enumerable_append)
    have ys: "own_enumerable (h2 @ e2) y = ?ys" using Suc.prems(2) by (rule own_enumerable_append)
    have "list_all2 (\<lambda>p q. fst p = fst q \<and> struct_eq n (h1 @ e1) (snd p) (h2 @ e2) (snd q)) ?xs ?ys
        = list_all2 (\<lambda>p q. fst p = fst q \<and> struct_eq n h1 (snd p) h2 (snd q)) ?xs ?ys"
    proof (rule list.rel_cong)
      fix p q assume "p \<in> set ?xs" and "q \<in> set ?ys"
      then have "valid_value h1 (snd p)" and "valid_value h2 (snd q)"
        using assms by (auto dest: valid_own_enumerable)
      then show "(fst p = fst q \<and> struct_eq n (h1 @ e1) (snd p) (h2 @ e2) (snd q))
          = (fst p = fst q \<and> struct_eq n h1 (snd p) h2 (snd q))"
        by (simp add: Suc.IH)
    qed simp_all
    then show ?thesis using xs ys by (simp add: x y)
  next
    case False
    then show ?thesis by (cases x; cases y) simp_all
  qed
qed

lemma props_eq_append:
  assumes "wf_store h1" and "wf_store h2"
    and "\<forall>p\<in>set xs. valid_value h1 (snd p)" and "\<forall>q\<in>set ys. valid_value h2 (snd q)"
  shows "props_eq n (h1 @ e1) (h2 @ e2) xs ys = props_eq n h1 h2 xs ys"
  unfolding props_eq_def
proof (rule list.rel_cong)
  fix p q assume "p \<in> set xs" and "q \<in> set ys"
  then have "valid_value h1 (snd p)" and "valid_value h2 (snd q)" using assms(3,4) by auto
  then show "(fst p = fst q \<and> struct_eq n (h1 @ e1) (snd p) (h2 @ e2) (snd q))
      = (fst p = fst q \<and> struct_eq n h1 (snd p) h2 (snd q))"
    by (simp add: struct_eq_append [OF assms(1,2)])
qed simp_all

lemma set_define_prop: "set (define_prop ps k x) \<subseteq> insert (k, x) (set ps)"
  by (induction ps) (auto split: if_splits)

lemma set_copy_data_properties: "set (copy_data_properties t s) \<subseteq> set t \<union> set s"
  unfolding copy_data_properties_def
proof (induction s arbitrary: t)
  case Nil
  show ?case by simp
next
  case (Cons p s)
  obtain k v where p: "p = (k, v)" by (cases p)
  have "set (foldl (\<lambda>t (k, v). define_prop t k v) (define_prop t k v) s)
      \<subseteq> set (define_prop t k v) \<union> set s"
    by (rule Cons.IH)
  then show ?case using set_define_prop [of t k v] by (auto simp: p)
qed

lemma valid_entry_literal:
  assumes "wf_store h" and "p \<in> set (entry_literal h d k i v)"
  shows "valid_value h (snd p)"
proof -
  let ?a = "copy_data_properties [] (own_enumerable h d)"
  let ?b = "define_prop ?a ''name'' (JStr k)"
  let ?c = "define_prop ?b ''index'' (JNum (int i))"
  have "p \<in> set ?c \<union> set (own_enumerable h v)"
    using assms(2) set_copy_data_properties [of ?c "own_enumerable h v"]
    by (auto simp: entry_literal_def spread_def)
  moreover have a: "set ?a \<subseteq> set (own_enumerable h d)"
    using set_copy_data_properties [of "[]" "own_enumerable h d"] by simp
  have b: "set ?b \<subseteq> insert (''name'', JStr k) (set (own_enumerable h d))"
    using set_define_prop [of ?a "''name''" "JStr k"] a by blast
  have "set ?c \<subseteq> {(''index'', JNum (int i)), (''name'', JStr k)} \<union> set (own_enumerable h d)"
    using set_define_prop [of ?b "''index''" "JNum (int i)"] b by blast
  ultimately have "p = (''index'', JNum (int i)) \<or> p = (''name'', JStr k)
      \<or> p \<in> set (own_enumerable h d) \<or> p \<in> set (own_enumerable h v)"
    by auto
  moreover have "valid_value h (snd (''index'', JNum (int i)))"
    "valid_value h (snd (''name'', JStr k))"
    by (simp_all add: valid_value_def)
  ultimately show ?thesis
    using valid_own_enumerable [OF assms(1), of p] by blast
qed

lemma default_fields_primitive: "\<forall>a. x \<noteq> JRef a \<Longrightarrow> default_fields h x = JUndefined"
  by (cases x) (simp_all add: default_fields_def get_defaultFields_def)

lemma struct_eq_default_fields:
  assumes "wf_store h1" and "wf_store h2" and "struct_eq (Suc n) h1 o1 h2 o2"
  shows "struct_eq n h1 (default_fields h1 o1) h2 (default_fields h2 o2)"
  using assms(3)
proof (cases rule: struct_eq_ref_cases)
  case (1 a b)
  have m1: "map_of (own_enumerable h1 (JRef a)) = map_of (object_at h1 a)"
    using assms(1) by (simp add: own_enumerable_def map_of_own_property_order wf_store_object)
  have m2: "map_of (own_enumerable h2 (JRef b)) = map_of (object_at h2 b)"
    using assms(2) by (simp add: own_enumerable_def map_of_own_property_order wf_store_object)
  have "props_eq n h1 h2 (own_enumerable h1 (JRef a)) (own_enumerable h2 (JRef b))"
    using assms(3) unfolding 1 by (rule struct_eq_own_enumerable)
  then have "rel_option (\<lambda>x y. struct_eq n h1 x h2 y)
      (map_of (object_at h1 a) ''defaultFields'') (map_of (object_at h2 b) ''defaultFields'')"
    using props_eq_map_of [of n h1 h2 _ _ "''defaultFields''"] m1 m2 by metis
  then show ?thesis
    by (cases "map_of (object_at h1 a) ''defaultFields''";
        cases "map_of (object_at h2 b) ''defaultFields''")
      (simp_all add: 1 default_fields_def get_defaultFields_def struct_eq_primitive)
next
  case 2
  then show ?thesis by (simp add: default_fields_primitive struct_eq_primitive)
qed

lemma createEnum_shape:
  assumes "valid_call h obj options"
  defines "es \<equiv> own_enumerable h obj"
    and "b \<equiv> (if options = JUndefined then Suc (length h) else length h)"
  shows "\<exists>h' out ext.
      createEnum h obj options = Inr (h', out) \<and> h' = h @ ext
      \<and> own_enumerable h' (JRef out)
          = map (\<lambda>m. (fst (es ! m), JRef (b + 2 * m + 2))) [0..<length es]
      \<and> (\<forall>m<length es. own_enumerable h' (JRef (b + 2 * m + 2))
            = own_property_order
                (entry_literal h (default_fields h options) (fst (es ! m)) m (snd (es ! m))))"
proof -
  let ?out = "b + 2 * length es - (if es = [] then 0 else 1)"
  let ?tb = "map (\<lambda>m. (fst (es ! m), JRef (b + 2 * m + 2))) [0..<length es]"
  from createEnum_result [OF assms(1)] obtain h' where
    c: "createEnum h obj options = Inr (h', ?out)"
    and tk: "take (length h) h' = h"
    and len: "length h' = b + 1 + 2 * length es"
    and tb: "h' ! ?out = ?tb"
    and en: "\<forall>m<length es. h' ! (b + 2 * m + 2)
            = entry_literal h (default_fields h options) (fst (es ! m)) m (snd (es ! m))"
    unfolding es_def b_def by blast
  obtain a where obj: "obj = JRef a"
    using assms(1) by (auto simp: valid_call_def split: jsval.splits)
  have "h' = take (length h) h' @ drop (length h) h'" by simp
  then have ext: "h' = h @ drop (length h) h'" using tk by simp
  have keys: "map fst ?tb = map fst es" by (rule nth_equalityI) simp_all
  have "key_ordered (map fst es)"
    by (simp add: es_def obj own_enumerable_def key_ordered_own_property_order)
  then have ko: "key_ordered (map fst ?tb)" by (simp only: keys)
  have "?out < length h'" using len by (cases es) simp_all
  then have "object_at h' ?out = ?tb" using tb by (simp add: object_at_def)
  then have 1: "own_enumerable h' (JRef ?out) = ?tb"
    using ko by (simp add: own_enumerable_def own_property_order_id)
  have 2: "\<forall>m<length es. own_enumerable h' (JRef (b + 2 * m + 2))
      = own_property_order
          (entry_literal h (default_fields h options) (fst (es ! m)) m (snd (es ! m)))"
  proof (intro allI impI)
    fix m assume m: "m < length es"
    then have "b + 2 * m + 2 < length h'" using len by simp
    then have "object_at h' (b + 2 * m + 2) = h' ! (b + 2 * m + 2)" by (simp add: object_at_def)
    then show "own_enumerable h' (JRef (b + 2 * m + 2))
      = own_property_order
          (entry_literal h (default_fields h options) (fst (es ! m)) m (snd (es ! m)))"
      using en m by (simp add: own_enumerable_def)
  qed
  from c ext 1 2 show ?thesis by blast
qed

section \<open>Purity\<close>

text \<open>
  The order of the keys is part of the structure of a mapping: the same two keys in the
  other order give the other indices.
\<close>

lemma createEnum_key_order_matters:
  "output_field (createEnum [[(''A'', JRef 1), (''B'', JRef 1)], []] (JRef 0) JUndefined)
     ''A'' ''index'' = Some (JNum 0)"
  "output_field (createEnum [[(''B'', JRef 1), (''A'', JRef 1)], []] (JRef 0) JUndefined)
     ''A'' ''index'' = Some (JNum 1)"
  by (simp_all add: eval_defs)

text \<open>
  Claim C7. Two calls whose inputs (the mapping and the options) are structurally equal,
  each in its own store, both return, and their outputs are structurally equal, at every
  depth \<open>n\<close>. Neither call changes an object of its input store: the mapping, the specs
  and the \<^verbatim>\<open>defaultFields\<close> bag are as they were.
\<close>

theorem createEnum_pure:
  assumes "valid_call h1 obj1 opt1" and "valid_call h2 obj2 opt2"
    and "struct_eq n h1 obj1 h2 obj2" and "struct_eq n h1 opt1 h2 opt2"
  shows "\<exists>h1' out1 h2' out2.
      createEnum h1 obj1 opt1 = Inr (h1', out1) \<and> createEnum h2 obj2 opt2 = Inr (h2', out2)
      \<and> struct_eq n h1' (JRef out1) h2' (JRef out2)
      \<and> take (length h1) h1' = h1 \<and> take (length h2) h2' = h2"
proof -
  define es1 where "es1 = own_enumerable h1 obj1"
  define es2 where "es2 = own_enumerable h2 obj2"
  define b1 where "b1 = (if opt1 = JUndefined then Suc (length h1) else length h1)"
  define b2 where "b2 = (if opt2 = JUndefined then Suc (length h2) else length h2)"
  define d1 where "d1 = default_fields h1 opt1"
  define d2 where "d2 = default_fields h2 opt2"
  from createEnum_shape [OF assms(1)] obtain h1' out1 ext1 where
    c1: "createEnum h1 obj1 opt1 = Inr (h1', out1)" and x1: "h1' = h1 @ ext1"
    and t1: "own_enumerable h1' (JRef out1)
          = map (\<lambda>m. (fst (es1 ! m), JRef (b1 + 2 * m + 2))) [0..<length es1]"
    and e1: "\<forall>m<length es1. own_enumerable h1' (JRef (b1 + 2 * m + 2))
            = own_property_order (entry_literal h1 d1 (fst (es1 ! m)) m (snd (es1 ! m)))"
    unfolding es1_def b1_def d1_def by blast
  from createEnum_shape [OF assms(2)] obtain h2' out2 ext2 where
    c2: "createEnum h2 obj2 opt2 = Inr (h2', out2)" and x2: "h2' = h2 @ ext2"
    and t2: "own_enumerable h2' (JRef out2)
          = map (\<lambda>m. (fst (es2 ! m), JRef (b2 + 2 * m + 2))) [0..<length es2]"
    and e2: "\<forall>m<length es2. own_enumerable h2' (JRef (b2 + 2 * m + 2))
            = own_property_order (entry_literal h2 d2 (fst (es2 ! m)) m (snd (es2 ! m)))"
    unfolding es2_def b2_def d2_def by blast
  have wf1: "wf_store h1" and wf2: "wf_store h2"
    using assms(1,2) by (simp_all add: valid_call_def)
  have se: "struct_eq n h1' (JRef out1) h2' (JRef out2)"
  proof (cases n)
    case 0
    then show ?thesis by simp
  next
    case n: (Suc m)
    have pe: "props_eq m h1 h2 es1 es2"
      using assms(3) unfolding n es1_def es2_def by (rule struct_eq_own_enumerable)
    then have len: "length es1 = length es2"
      by (simp add: props_eq_def list_all2_lengthD)
    have nth: "fst (es1 ! j) = fst (es2 ! j) \<and> struct_eq m h1 (snd (es1 ! j)) h2 (snd (es2 ! j))"
      if "j < length es1" for j
      using pe that by (simp add: props_eq_def list_all2_conv_all_nth)
    have ent: "struct_eq m h1' (JRef (b1 + 2 * j + 2)) h2' (JRef (b2 + 2 * j + 2))"
      if j: "j < length es1" for j
    proof (cases m)
      case 0
      then show ?thesis by simp
    next
      case m: (Suc p)
      let ?l1 = "entry_literal h1 d1 (fst (es1 ! j)) j (snd (es1 ! j))"
      let ?l2 = "entry_literal h2 d2 (fst (es2 ! j)) j (snd (es2 ! j))"
      have "struct_eq (Suc p) h1 d1 h2 d2"
        using assms(4) unfolding n m d1_def d2_def by (rule struct_eq_default_fields [OF wf1 wf2])
      then have pd: "props_eq p h1 h2 (own_enumerable h1 d1) (own_enumerable h2 d2)"
        by (rule struct_eq_own_enumerable)
      have "struct_eq (Suc p) h1 (snd (es1 ! j)) h2 (snd (es2 ! j))"
        using nth [OF j] by (simp only: m)
      then have pv: "props_eq p h1 h2 (own_enumerable h1 (snd (es1 ! j)))
          (own_enumerable h2 (snd (es2 ! j)))"
        by (rule struct_eq_own_enumerable)
      have k: "fst (es1 ! j) = fst (es2 ! j)" using nth [OF j] by simp
      have "props_eq p h1 h2 ?l1 ?l2"
        using props_eq_entry_literal [OF pd pv, of "fst (es1 ! j)" j] by (simp only: k)
      moreover have "\<forall>q\<in>set ?l1. valid_value h1 (snd q)" "\<forall>q\<in>set ?l2. valid_value h2 (snd q)"
        using valid_entry_literal [OF wf1] valid_entry_literal [OF wf2] by blast+
      ultimately have "props_eq p h1' h2' ?l1 ?l2"
        unfolding x1 x2 by (simp only: props_eq_append [OF wf1 wf2])
      then have "props_eq p h1' h2' (own_property_order ?l1) (own_property_order ?l2)"
        by (rule props_eq_own_property_order)
      then have "props_eq p h1' h2' (own_enumerable h1' (JRef (b1 + 2 * j + 2)))
          (own_enumerable h2' (JRef (b2 + 2 * j + 2)))"
        using e1 e2 j len by simp
      then show ?thesis unfolding m by (simp only: struct_eq_Suc_ref)
    qed
    have "props_eq m h1' h2' (own_enumerable h1' (JRef out1)) (own_enumerable h2' (JRef out2))"
      unfolding t1 t2 props_eq_def using len nth ent by (simp add: list_all2_conv_all_nth)
    then show ?thesis unfolding n by (simp only: struct_eq_Suc_ref)
  qed
  have "take (length h1) h1' = h1" "take (length h2) h2' = h2" by (simp_all add: x1 x2)
  then show ?thesis using c1 c2 se by blast
qed

theorem createEnum_pure_witness:
  "valid_call colours_store (JRef 0) (JRef 3) \<and> valid_call colours_store' (JRef 4) (JRef 2)
   \<and> struct_eq 3 colours_store (JRef 0) colours_store' (JRef 4)
   \<and> struct_eq 3 colours_store (JRef 3) colours_store' (JRef 2)
   \<and> (\<exists>h1' out1 h2' out2.
        createEnum colours_store (JRef 0) (JRef 3) = Inr (h1', out1)
        \<and> createEnum colours_store' (JRef 4) (JRef 2) = Inr (h2', out2)
        \<and> struct_eq 3 h1' (JRef out1) h2' (JRef out2)
        \<and> take (length colours_store) h1' = colours_store
        \<and> take (length colours_store') h2' = colours_store')"
proof -
  have 1: "valid_call colours_store (JRef 0) (JRef 3)" by (simp add: eval_defs)
  have 2: "valid_call colours_store' (JRef 4) (JRef 2)" by (simp add: eval_defs)
  have 3: "struct_eq 3 colours_store (JRef 0) colours_store' (JRef 4)"
    by (simp add: eval_defs eval_nat_numeral)
  have 4: "struct_eq 3 colours_store (JRef 3) colours_store' (JRef 2)"
    by (simp add: eval_defs eval_nat_numeral)
  show ?thesis using createEnum_pure [OF 1 2 3 4] 1 2 3 4 by blast
qed

end
